theory Spec2Isabelle
  imports Complex_Main "HOL-Library.Stream"
begin

section \<open>Introduction-to-RL: tabular Q-learning and policy iteration\<close>

text \<open>
  The repository holds two teaching notebooks. \<^verbatim>\<open>Hands-on/Tabular_Q-Learning_Full.ipynb\<close>
  defines the class \<^verbatim>\<open>TabularQLearning\<close> (a Q-table learner driven by an external loop);
  the second notebook defines \<^verbatim>\<open>q_value\<close>, \<^verbatim>\<open>policy_evaluation\<close>,
  \<^verbatim>\<open>policy_improvement\<close> and \<^verbatim>\<open>policy_iteration\<close> over the global arrays
  \<^verbatim>\<open>V\<close>, \<^verbatim>\<open>pi\<close> and the transition tensor \<^verbatim>\<open>T\<close>.

  Conventions of the embedding.
  \<^item> Python floats and numpy \<^verbatim>\<open>float64\<close> cells are real numbers: rounding, and the
    infinities and NaN that float operations produce silently, are outside the model. The
    exceptions that Python's float operations raise are part of it.
  \<^item> A numpy 2-D array is a record of its shape and its cells; an index out of the shape
    raises \<^verbatim>\<open>IndexError\<close>. States and Q-table actions are indices, modelled as natural
    numbers (negative indices, which numpy would wrap around, do not occur).
  \<^item> A raised exception is a value of \<open>py_error\<close>; mutation of an object or of the
    notebook's globals is explicit state passing.
  \<^item> A \<^verbatim>\<open>while True:\<close> loop is \<open>while_true\<close>, a partial function whose value
    \<open>None\<close> means that the loop never exits.
\<close>

subsection \<open>Python exceptions, return values and numpy arrays\<close>

datatype py_error = IndexError | ValueError | ZeroDivisionError | OverflowError

datatype py_value = PyNone | PyBool bool | PyInt int

record 'a array2 =
  nrows :: nat
  ncols :: nat
  cell :: "nat \<Rightarrow> nat \<Rightarrow> 'a"

text \<open>\<^verbatim>\<open>np.zeros((n, m))\<close>\<close>

definition zeros2 :: "nat \<Rightarrow> nat \<Rightarrow> ('a::zero) array2" where
  "zeros2 n m = \<lparr>nrows = n, ncols = m, cell = (\<lambda>i j. 0)\<rparr>"

text \<open>\<^verbatim>\<open>A[i, j]\<close> read, \<^verbatim>\<open>A[i, j] = v\<close> and the row \<^verbatim>\<open>A[i]\<close>\<close>

definition get2 :: "'a array2 \<Rightarrow> nat \<Rightarrow> nat \<Rightarrow> py_error + 'a" where
  "get2 A i j = (if i < nrows A \<and> j < ncols A then Inr (cell A i j) else Inl IndexError)"

definition set2 :: "'a array2 \<Rightarrow> nat \<Rightarrow> nat \<Rightarrow> 'a \<Rightarrow> py_error + 'a array2" where
  "set2 A i j v =
     (if i < nrows A \<and> j < ncols A
      then Inr (A\<lparr>cell := (cell A)(i := (cell A i)(j := v))\<rparr>)
      else Inl IndexError)"

definition get_row :: "'a array2 \<Rightarrow> nat \<Rightarrow> py_error + 'a list" where
  "get_row A i = (if i < nrows A then Inr (map (cell A i) [0..<ncols A]) else Inl IndexError)"

text \<open>\<^verbatim>\<open>np.max\<close> of a flat sequence of cells: an empty one raises \<^verbatim>\<open>ValueError\<close>.\<close>

definition np_max :: "real list \<Rightarrow> py_error + real" where
  "np_max xs = (if xs = [] then Inl ValueError else Inr (Max (set xs)))"

text \<open>
  The range of a float: a real number of magnitude \<open>float_overflow\<close> or more rounds to an
  infinity, and one of magnitude \<open>float_tiny\<close> or less rounds to zero. Python raises
  \<^verbatim>\<open>OverflowError\<close> where a result of \<^verbatim>\<open>int / int\<close> or of \<^verbatim>\<open>pow\<close> would be an
  infinity. \<open>in_float_range q\<close> says that \<open>q\<close> neither overflows nor is rounded to zero
  without being zero.
\<close>

definition float_overflow :: real where
  "float_overflow = 2 ^ 1024 - 2 ^ 970"

definition float_tiny :: real where
  "float_tiny = 1 / 2 ^ 1075"

definition in_float_range :: "real \<Rightarrow> bool" where
  "in_float_range q \<longleftrightarrow> (q = 0 \<or> float_tiny < \<bar>q\<bar>) \<and> \<bar>q\<bar> < float_overflow"

text \<open>Python's \<^verbatim>\<open>a / b\<close> with a float \<open>a\<close>, as \<^verbatim>\<open>plan\<close> uses it.\<close>

definition py_truediv :: "real \<Rightarrow> real \<Rightarrow> py_error + real" where
  "py_truediv a b = (if b = 0 then Inl ZeroDivisionError else Inr (a / b))"

text \<open>
  Python's \<^verbatim>\<open>a / b\<close> of two ints: \<^verbatim>\<open>ZeroDivisionError\<close> for a zero divisor,
  \<^verbatim>\<open>OverflowError\<close> when the quotient is too large for a float, the float zero when it is
  too small, and else the quotient.
\<close>

definition py_int_truediv :: "int \<Rightarrow> int \<Rightarrow> py_error + real" where
  "py_int_truediv a b =
     (if b = 0 then Inl ZeroDivisionError
      else if float_overflow \<le> \<bar>real_of_int a / real_of_int b\<bar> then Inl OverflowError
      else if \<bar>real_of_int a / real_of_int b\<bar> \<le> float_tiny then Inr 0
      else Inr (real_of_int a / real_of_int b))"

text \<open>
  Python's \<^verbatim>\<open>pow(x, y)\<close> of two floats, in the order of its cases: a zero exponent gives
  \<open>1\<close>; a zero base gives \<open>0\<close>, or \<^verbatim>\<open>ZeroDivisionError\<close> for a negative exponent; a
  negative base with a non-integral exponent gives the complex number
  \<open>\<bar>x\<bar> ^ y * (cos (\<pi> y) + i sin (\<pi> y))\<close>; every other case gives the real power. A result
  too large for a float raises \<^verbatim>\<open>OverflowError\<close>.
\<close>

datatype py_number = PyFloat real | PyComplex complex

definition py_pow :: "real \<Rightarrow> real \<Rightarrow> py_error + py_number" where
  "py_pow x y =
     (if y = 0 then Inr (PyFloat 1)
      else if x = 0 then (if y < 0 then Inl ZeroDivisionError else Inr (PyFloat 0))
      else if x < 0 \<and> y \<noteq> of_int \<lfloor>y\<rfloor> then
        (if float_overflow \<le> \<bar>x\<bar> powr y then Inl OverflowError
         else Inr (PyComplex (complex_of_real (\<bar>x\<bar> powr y) * cis (pi * y))))
      else if float_overflow \<le> \<bar>if 0 < x then x powr y else x powi \<lfloor>y\<rfloor>\<bar>
        then Inl OverflowError
      else Inr (PyFloat (if 0 < x then x powr y else x powi \<lfloor>y\<rfloor>)))"

text \<open>The complex value of a Python number.\<close>

definition as_complex :: "py_number \<Rightarrow> complex" where
  "as_complex a = (case a of PyFloat r \<Rightarrow> complex_of_real r | PyComplex c \<Rightarrow> c)"

subsection \<open>The notebook Tabular\_Q-Learning\_Full: class TabularQLearning\<close>

text \<open>
  \<open>transition\<close> is the framework's \<^verbatim>\<open>Transition\<close> as the class reads it. \<open>learner\<close>
  holds the attributes of a \<^verbatim>\<open>TabularQLearning\<close> object: \<^verbatim>\<open>_lr\<close>, \<^verbatim>\<open>_decay\<close>,
  \<^verbatim>\<open>_gamma\<close>, \<^verbatim>\<open>_episode_count\<close>, \<^verbatim>\<open>_return\<close>, \<^verbatim>\<open>running_avg\<close> and \<^verbatim>\<open>Q\<close>.
  The decay horizon \<^verbatim>\<open>decay_steps\<close> is a number of steps, an int as its default
  \<^verbatim>\<open>300\<close> and the notebook's \<^verbatim>\<open>400\<close> are; the learning rate and the discount are floats.
  The parameters the methods never read (\<^verbatim>\<open>train_mode\<close>, \<^verbatim>\<open>debug_mode\<close>, \<^verbatim>\<open>step\<close>,
  \<^verbatim>\<open>info\<close>, \<^verbatim>\<open>episode\<close>) are left out.
\<close>

record transition =
  state :: nat
  action :: nat
  reward :: real
  next_state :: nat
  is_terminal :: bool

record learner =
  lr :: real
  decay :: int
  gamma :: real
  episode_count :: int
  return :: real
  running_avg :: "real list"
  Q :: "real array2"

text \<open>\<^verbatim>\<open>__init__(self, nstates, nactions, learning_rate, decay_steps, discount_factor)\<close>\<close>

definition TabularQLearning_init :: "nat \<Rightarrow> nat \<Rightarrow> real \<Rightarrow> int \<Rightarrow> real \<Rightarrow> learner" where
  "TabularQLearning_init nstates nactions learning_rate decay_steps discount_factor =
     \<lparr>lr = learning_rate, decay = decay_steps, gamma = discount_factor,
      episode_count = 1, return = 0, running_avg = [0],
      Q = zeros2 nstates nactions\<rparr>"

text \<open>
  The generator behind \<^verbatim>\<open>np.random\<close> is the stream of the standard-normal draws it will
  deliver; \<^verbatim>\<open>np.random.randn(n)\<close> takes the next \<open>n\<close> of them. That the draws are
  independent and Gaussian is the library's contract and is not expressed here.
\<close>

type_synonym rng = "real stream"

definition randn :: "nat \<Rightarrow> rng \<Rightarrow> real list \<times> rng" where
  "randn n g = (stake n g, sdrop n g)"

text \<open>
  \<^verbatim>\<open>plan(self, state, train_mode, debug_mode)\<close>:
  \<^verbatim>\<open>random_noise = np.random.randn(self.Q.shape[1]) * (1. / self._episode_count)\<close>,
  \<^verbatim>\<open>return self.Q[state] + random_noise\<close>. The result is the returned value (or the
  exception), the object after the call and the generator after the call.
\<close>

definition plan :: "learner \<Rightarrow> nat \<Rightarrow> rng \<Rightarrow> (py_error + real list) \<times> learner \<times> rng" where
  "plan self s g =
     (case randn (ncols (Q self)) g of (z, g') \<Rightarrow>
        (case py_truediv 1 (real_of_int (episode_count self)) of
           Inl e \<Rightarrow> (Inl e, self, g')
         | Inr scale \<Rightarrow>
            (let random_noise = map (\<lambda>x. x * scale) z in
             case get_row (Q self) s of
               Inl e \<Rightarrow> (Inl e, self, g')
             | Inr row \<Rightarrow> (Inr (map2 (+) row random_noise), self, g'))))"

text \<open>\<^verbatim>\<open>on_episode_start\<close>: \<^verbatim>\<open>self._return = 0\<close>\<close>

definition on_episode_start :: "learner \<Rightarrow> learner" where
  "on_episode_start self = self\<lparr>return := 0\<rparr>"

text \<open>
  The two local variables of \<^verbatim>\<open>on_step_taken\<close>:
  \<^verbatim>\<open>LR = pow(self._lr, self._episode_count / self._decay)\<close>, a float or a complex number,
  and \<^verbatim>\<open>target\<close>, which is \<^verbatim>\<open>transition.reward\<close> for a terminal transition and
  \<^verbatim>\<open>transition.reward + self._gamma * np.max(self.Q[transition.next_state])\<close> otherwise.
\<close>

definition LR :: "learner \<Rightarrow> py_error + py_number" where
  "LR self =
     (case py_int_truediv (episode_count self) (decay self) of
        Inl e \<Rightarrow> Inl e
      | Inr y \<Rightarrow> py_pow (lr self) y)"

definition target :: "learner \<Rightarrow> transition \<Rightarrow> py_error + real" where
  "target self t =
     (if is_terminal t then Inr (reward t)
      else case get_row (Q self) (next_state t) of
             Inl e \<Rightarrow> Inl e
           | Inr row \<Rightarrow>
              (case np_max row of
                 Inl e \<Rightarrow> Inl e
               | Inr m \<Rightarrow> Inr (reward t + gamma self * m)))"

text \<open>
  The value that \<^verbatim>\<open>self.Q[state, action] += LR * (target - self.Q[state, action])\<close> stores
  for the old entry \<open>q\<close>. With a float \<^verbatim>\<open>LR\<close> it is the sum. With a complex \<^verbatim>\<open>LR\<close> the sum is
  a numpy \<^verbatim>\<open>complex128\<close>, and storing it into the \<^verbatim>\<open>float64\<close> table keeps its real part
  (numpy warns that the imaginary part is discarded).
\<close>

definition stored_value :: "real \<Rightarrow> py_number \<Rightarrow> real \<Rightarrow> real" where
  "stored_value q a tg =
     (case a of
        PyFloat r \<Rightarrow> q + r * (tg - q)
      | PyComplex c \<Rightarrow> Re (complex_of_real q + c * complex_of_real (tg - q)))"

text \<open>
  \<^verbatim>\<open>on_step_taken(self, step, transition, info)\<close>. The statements run in the source's
  order: the return is accumulated, then \<^verbatim>\<open>LR\<close> and \<^verbatim>\<open>target\<close> are computed, then
  \<^verbatim>\<open>self.Q[state, action] += LR * (target - self.Q[state, action])\<close>, then the episode
  counter is incremented for a terminal transition. An exception leaves the object as it
  was when the exception was raised: \<open>Inl\<close> carries the exception and that object.
\<close>

definition on_step_taken :: "learner \<Rightarrow> transition \<Rightarrow> (py_error \<times> learner) + learner" where
  "on_step_taken self t =
     (let self1 = self\<lparr>return := return self + reward t\<rparr> in
      case LR self1 of
        Inl e \<Rightarrow> Inl (e, self1)
      | Inr a \<Rightarrow>
         (case target self1 t of
            Inl e \<Rightarrow> Inl (e, self1)
          | Inr tg \<Rightarrow>
             (case get2 (Q self1) (state t) (action t) of
                Inl e \<Rightarrow> Inl (e, self1)
              | Inr q \<Rightarrow>
                 (case set2 (Q self1) (state t) (action t) (stored_value q a tg) of
                    Inl e \<Rightarrow> Inl (e, self1)
                  | Inr Q' \<Rightarrow>
                     (let self2 = self1\<lparr>Q := Q'\<rparr> in
                      Inr (if is_terminal t
                           then self2\<lparr>episode_count := episode_count self2 + 1\<rparr>
                           else self2))))))"

text \<open>The object after a call of \<open>on_step_taken\<close>, whether it returned or raised.\<close>

definition after_call :: "(py_error \<times> learner) + learner \<Rightarrow> learner" where
  "after_call r = (case r of Inl (e, self') \<Rightarrow> self' | Inr self' \<Rightarrow> self')"

text \<open>
  \<^verbatim>\<open>on_episode_end\<close>:
  \<^verbatim>\<open>self.running_avg.append(0.01 * self._return + 0.99 * self.running_avg[-1])\<close>, and the
  property \<^verbatim>\<open>metrics\<close>.
\<close>

definition on_episode_end :: "learner \<Rightarrow> py_error + learner" where
  "on_episode_end self =
     (if running_avg self = [] then Inl IndexError
      else Inr (self\<lparr>running_avg :=
                  running_avg self @ [0.01 * return self + 0.99 * last (running_avg self)]\<rparr>))"

definition metrics :: "learner \<Rightarrow> py_error + (string \<times> real) list" where
  "metrics self =
     (if running_avg self = [] then Inl IndexError
      else Inr [(''avg. return'', last (running_avg self))])"

subsection \<open>The dynamic-programming notebook\<close>

text \<open>
  \<open>mdp\<close> gathers what the notebook takes from outside: the enumeration
  \<^verbatim>\<open>mdp.states_iter()\<close>, the legal actions \<^verbatim>\<open>mdp.actions_in_state(n1, n2)\<close>, and the
  tensor \<^verbatim>\<open>T\<close>, read as \<^verbatim>\<open>T[n1, n2, action, n1_, n2_]\<close>, a pair (probability, reward).
  The module \<^verbatim>\<open>utils\<close> and the data file are not part of the sources, so all three are
  parameters. \<open>dp\<close> holds the notebook's globals \<^verbatim>\<open>pi\<close> (the field \<open>pi_tbl\<close>: the
  name \<open>pi\<close> is taken by the real constant) and \<^verbatim>\<open>V\<close>, and \<open>out\<close>, the sequence of
  messages printed and of calls of \<^verbatim>\<open>visualize\<close>. The three functions of the notebook
  return \<^verbatim>\<open>None\<close> (\<open>PyNone\<close>) or, for \<^verbatim>\<open>policy_improvement\<close>, the boolean
  \<^verbatim>\<open>changed\<close>.
\<close>

datatype event =
    Print_policy_evaluation nat
  | Print_evaluation_finished nat
  | Print_iteration_step nat
  | Print_iteration_finished nat
  | Visualize

record mdp =
  states_iter :: "(nat \<times> nat) list"
  actions_in_state :: "nat \<Rightarrow> nat \<Rightarrow> int list"
  T :: "nat \<Rightarrow> nat \<Rightarrow> int \<Rightarrow> nat \<Rightarrow> nat \<Rightarrow> real \<times> real"

record dp =
  pi_tbl :: "int array2"
  V :: "real array2"
  out :: "event list"

text \<open>
  \<^verbatim>\<open>pi = np.zeros(STATE_SPACE, dtype=np.int)\<close>, \<^verbatim>\<open>V = np.zeros(STATE_SPACE, dtype=np.float)\<close>
\<close>

definition dp_init :: "nat \<Rightarrow> nat \<Rightarrow> dp" where
  "dp_init N1 N2 = \<lparr>pi_tbl = zeros2 N1 N2, V = zeros2 N1 N2, out = []\<rparr>"

text \<open>
  \<^verbatim>\<open>while True: ...\<close> with \<^verbatim>\<open>break\<close>: one round of the loop either leaves the loop with
  a result, or continues with the next loop state, or (when it calls a function that does
  not return) has no outcome. \<open>while_steps n\<close> is the loop state after \<open>n\<close> rounds that
  all continued.
\<close>

datatype ('r, 's) flow = Break 'r | Continue 's

partial_function (option) while_true :: "('s \<Rightarrow> ('r, 's) flow option) \<Rightarrow> 's \<Rightarrow> 'r option" where
  "while_true body s =
     (case body s of
        None \<Rightarrow> None
      | Some (Break r) \<Rightarrow> Some r
      | Some (Continue s') \<Rightarrow> while_true body s')"

fun while_steps :: "nat \<Rightarrow> ('s \<Rightarrow> ('r, 's) flow option) \<Rightarrow> 's \<Rightarrow> 's option" where
  "while_steps 0 body s = Some s"
| "while_steps (Suc n) body s =
     (case while_steps n body s of
        None \<Rightarrow> None
      | Some s' \<Rightarrow> (case body s' of Some (Continue s'') \<Rightarrow> Some s'' | _ \<Rightarrow> None))"

text \<open>
  Modelled from the spec: the body of the loop of \<^verbatim>\<open>q_value\<close> is an exercise blank in the
  sources (\<^verbatim>\<open>p, r = T[...]\<close>, \<^verbatim>\<open>q += ...\<close>). The spec gives it: the sum over all next
  states of \<^verbatim>\<open>P(s'|s,a) * (R(s,a,s') + gamma * V(s'))\<close>. The loop itself,
  \<^verbatim>\<open>q = 0.\<close>, \<^verbatim>\<open>for n1_, n2_ in mdp.states_iter()\<close>, \<^verbatim>\<open>return q\<close>, is the source's.
\<close>

fun q_value_loop ::
  "mdp \<Rightarrow> real array2 \<Rightarrow> nat \<Rightarrow> nat \<Rightarrow> int \<Rightarrow> real \<Rightarrow> (nat \<times> nat) list \<Rightarrow> real \<Rightarrow> py_error + real" where
  "q_value_loop m Vt n1 n2 a g [] q = Inr q"
| "q_value_loop m Vt n1 n2 a g ((n1', n2') # rest) q =
     (case T m n1 n2 a n1' n2' of (p, r) \<Rightarrow>
        (case get2 Vt n1' n2' of
           Inl e \<Rightarrow> Inl e
         | Inr v \<Rightarrow> q_value_loop m Vt n1 n2 a g rest (q + p * (r + g * v))))"

definition q_value :: "mdp \<Rightarrow> real array2 \<Rightarrow> nat \<Rightarrow> nat \<Rightarrow> int \<Rightarrow> real \<Rightarrow> py_error + real" where
  "q_value m Vt n1 n2 a g = q_value_loop m Vt n1 n2 a g (states_iter m) 0"

text \<open>
  Modelled from the spec: the statement inside the sweep of \<^verbatim>\<open>policy_evaluation\<close> is an
  exercise blank in the sources (\<^verbatim>\<open>... = q_value(..., gamma=gamma)\<close>). The spec gives
  it: the q-value of the policy's action is assigned as the new \<^verbatim>\<open>V(s)\<close>, in place, that
  is \<^verbatim>\<open>V[n1, n2] = q_value(n1, n2, pi[n1, n2], gamma=gamma)\<close>. The sweep itself,
  \<^verbatim>\<open>for n1, n2 in mdp.states_iter()\<close>, is the source's.
\<close>

fun sweep :: "mdp \<Rightarrow> real \<Rightarrow> int array2 \<Rightarrow> (nat \<times> nat) list \<Rightarrow> real array2 \<Rightarrow> py_error + real array2" where
  "sweep m g pt [] Vt = Inr Vt"
| "sweep m g pt ((n1, n2) # rest) Vt =
     (case get2 pt n1 n2 of
        Inl e \<Rightarrow> Inl e
      | Inr a \<Rightarrow>
         (case q_value m Vt n1 n2 a g of
            Inl e \<Rightarrow> Inl e
          | Inr q \<Rightarrow>
             (case set2 Vt n1 n2 q of
                Inl e \<Rightarrow> Inl e
              | Inr Vt' \<Rightarrow> sweep m g pt rest Vt')))"

text \<open>
  \<^verbatim>\<open>np.max(np.abs(V_old - V))\<close>: the maximum over all cells of the array (\<open>A\<close> and \<open>B\<close>
  have the same shape: \<^verbatim>\<open>V_old\<close> is a copy of \<^verbatim>\<open>V\<close> and a sweep keeps the shape).
\<close>

definition max_abs_diff :: "real array2 \<Rightarrow> real array2 \<Rightarrow> py_error + real" where
  "max_abs_diff A B =
     np_max (concat (map (\<lambda>i. map (\<lambda>j. \<bar>cell A i j - cell B i j\<bar>) [0..<ncols A]) [0..<nrows A]))"

text \<open>
  The visualization block at the head of the loop of \<^verbatim>\<open>policy_evaluation\<close>:
  \<^verbatim>\<open>if visualize_each > 0 and i % visualize_each == 0\<close>, print and \<^verbatim>\<open>visualize(V=V)\<close>.
\<close>

definition visualization :: "int \<Rightarrow> nat \<Rightarrow> dp \<Rightarrow> dp" where
  "visualization visualize_each i w =
     (if visualize_each > 0 \<and> int i mod visualize_each = 0
      then w\<lparr>out := out w @ [Print_policy_evaluation i, Visualize]\<rparr>
      else w)"

text \<open>
  \<^verbatim>\<open>policy_evaluation(gamma, theta, visualize_each=0)\<close>. The loop state is the globals and
  the counter \<^verbatim>\<open>i\<close>. One round: the visualization block, \<^verbatim>\<open>V_old = np.copy(V)\<close>, the
  sweep, \<^verbatim>\<open>max_diff = np.max(np.abs(V_old - V))\<close>, and \<^verbatim>\<open>if max_diff < theta\<close>: print
  \<^verbatim>\<open>i + 1\<close> and \<^verbatim>\<open>break\<close>; else \<^verbatim>\<open>i += 1\<close>. The function has no \<^verbatim>\<open>return\<close> statement:
  its value is \<^verbatim>\<open>None\<close>.
\<close>

definition policy_evaluation_body ::
  "mdp \<Rightarrow> real \<Rightarrow> real \<Rightarrow> int \<Rightarrow> dp \<times> nat \<Rightarrow> (py_error + py_value \<times> dp, dp \<times> nat) flow option" where
  "policy_evaluation_body m g theta visualize_each = (\<lambda>(w, i).
     (let w1 = visualization visualize_each i w;
          V_old = V w1
      in case sweep m g (pi_tbl w1) (states_iter m) (V w1) of
           Inl e \<Rightarrow> Some (Break (Inl e))
         | Inr V' \<Rightarrow>
            (case max_abs_diff V_old V' of
               Inl e \<Rightarrow> Some (Break (Inl e))
             | Inr max_diff \<Rightarrow>
                if max_diff < theta
                then Some (Break (Inr (PyNone,
                       w1\<lparr>V := V', out := out w1 @ [Print_evaluation_finished (i + 1)]\<rparr>)))
                else Some (Continue (w1\<lparr>V := V'\<rparr>, i + 1)))))"

definition policy_evaluation ::
  "mdp \<Rightarrow> real \<Rightarrow> real \<Rightarrow> int \<Rightarrow> dp \<Rightarrow> (py_error + py_value \<times> dp) option" where
  "policy_evaluation m g theta visualize_each w =
     while_true (policy_evaluation_body m g theta visualize_each) (w, 0)"

text \<open>
  Two notions to speak about the loop: \<open>sweeps n\<close> is the value table after \<open>n\<close>
  successive sweeps, and \<open>sweep_diff k\<close> is the \<^verbatim>\<open>max_diff\<close> that the round with
  \<^verbatim>\<open>i = k\<close> computes, that is between the table after \<open>k\<close> sweeps (the snapshot
  \<^verbatim>\<open>V_old\<close>) and the table after \<open>k + 1\<close> sweeps.
\<close>

fun sweeps :: "nat \<Rightarrow> mdp \<Rightarrow> real \<Rightarrow> int array2 \<Rightarrow> real array2 \<Rightarrow> py_error + real array2" where
  "sweeps 0 m g pt Vt = Inr Vt"
| "sweeps (Suc n) m g pt Vt =
     (case sweeps n m g pt Vt of
        Inl e \<Rightarrow> Inl e
      | Inr Vt' \<Rightarrow> sweep m g pt (states_iter m) Vt')"

definition sweep_diff :: "nat \<Rightarrow> mdp \<Rightarrow> real \<Rightarrow> int array2 \<Rightarrow> real array2 \<Rightarrow> py_error + real" where
  "sweep_diff k m g pt Vt =
     (case sweeps k m g pt Vt of
        Inl e \<Rightarrow> Inl e
      | Inr A \<Rightarrow>
         (case sweep m g pt (states_iter m) A of
            Inl e \<Rightarrow> Inl e
          | Inr B \<Rightarrow> max_abs_diff A B))"

text \<open>
  The specification's \<^verbatim>\<open>max_diff\<close>, to be compared with \<open>max_abs_diff\<close>, which is the
  source's: \<open>d\<close> is the maximum over all states \<open>s\<close>, the cells of the value table, of
  \<open>|V_new(s) - V_old(s)|\<close>, that is, some state attains \<open>d\<close> and no state exceeds it.
  \<open>spec_sweep_diff k\<close> is that maximum for the round with \<^verbatim>\<open>i = k\<close>: \<open>V_old\<close> is the
  table after \<open>k\<close> sweeps and \<open>V_new\<close> the table after the next sweep.
\<close>

definition spec_max_diff :: "real array2 \<Rightarrow> real array2 \<Rightarrow> real \<Rightarrow> bool" where
  "spec_max_diff V_old V_new d \<longleftrightarrow>
     (\<exists>i\<in>{0..<nrows V_old}. \<exists>j\<in>{0..<ncols V_old}. d = \<bar>cell V_new i j - cell V_old i j\<bar>) \<and>
     (\<forall>i\<in>{0..<nrows V_old}. \<forall>j\<in>{0..<ncols V_old}. \<bar>cell V_new i j - cell V_old i j\<bar> \<le> d)"

definition spec_sweep_diff :: "nat \<Rightarrow> mdp \<Rightarrow> real \<Rightarrow> int array2 \<Rightarrow> real array2 \<Rightarrow> real \<Rightarrow> bool" where
  "spec_sweep_diff k m g pt Vt d =
     (case sweeps k m g pt Vt of
        Inl e \<Rightarrow> False
      | Inr V_old \<Rightarrow>
         (case sweep m g pt (states_iter m) V_old of
            Inl e \<Rightarrow> False
          | Inr V_new \<Rightarrow> spec_max_diff V_old V_new d))"

text \<open>
  \<^verbatim>\<open>q_values = list(map(lambda action: q_value(n1, n2, action, gamma=gamma), actions))\<close>
\<close>

fun q_values :: "mdp \<Rightarrow> real array2 \<Rightarrow> nat \<Rightarrow> nat \<Rightarrow> real \<Rightarrow> int list \<Rightarrow> py_error + real list" where
  "q_values m Vt n1 n2 g [] = Inr []"
| "q_values m Vt n1 n2 g (a # as) =
     (case q_value m Vt n1 n2 a g of
        Inl e \<Rightarrow> Inl e
      | Inr q \<Rightarrow>
         (case q_values m Vt n1 n2 g as of
            Inl e \<Rightarrow> Inl e
          | Inr qs \<Rightarrow> Inr (q # qs)))"

text \<open>
  \<^verbatim>\<open>np.argmax\<close> of a sequence: a scan that keeps the index of the largest value seen
  and replaces it only by a strictly larger one; an empty sequence raises
  \<^verbatim>\<open>ValueError\<close>.
\<close>

fun argmax_from :: "real list \<Rightarrow> nat \<Rightarrow> nat \<Rightarrow> real \<Rightarrow> nat" where
  "argmax_from [] i best_i best = best_i"
| "argmax_from (x # xs) i best_i best =
     (if best < x then argmax_from xs (Suc i) i x else argmax_from xs (Suc i) best_i best)"

definition np_argmax :: "real list \<Rightarrow> py_error + nat" where
  "np_argmax xs = (case xs of [] \<Rightarrow> Inl ValueError | x # rest \<Rightarrow> Inr (argmax_from rest 1 0 x))"

text \<open>
  Modelled from the spec: the two operands of \<^verbatim>\<open>best_a = ...[np.argmax(...)]\<close> are
  exercise blanks in the sources. The spec gives them: the action with maximal q-value
  among the legal ones, that is \<^verbatim>\<open>actions[np.argmax(q_values)]\<close>. The lines before it in
  the loop of \<^verbatim>\<open>policy_improvement\<close>, which compute \<^verbatim>\<open>actions\<close> and \<^verbatim>\<open>q_values\<close>, and
  the call of \<^verbatim>\<open>np.argmax\<close> are the source's.
\<close>

definition best_action :: "mdp \<Rightarrow> real array2 \<Rightarrow> nat \<Rightarrow> nat \<Rightarrow> real \<Rightarrow> py_error + int" where
  "best_action m Vt n1 n2 g =
     (let actions = actions_in_state m n1 n2 in
      case q_values m Vt n1 n2 g actions of
        Inl e \<Rightarrow> Inl e
      | Inr qs \<Rightarrow>
         (case np_argmax qs of
            Inl e \<Rightarrow> Inl e
          | Inr k \<Rightarrow> if k < length actions then Inr (actions ! k) else Inl IndexError))"

text \<open>
  Modelled from the spec: the entry compared and assigned in
  \<^verbatim>\<open>if ... != best_a: ... = best_a; changed = True\<close> is an exercise blank in the sources.
  The spec gives it: the state's entry of the policy table, \<^verbatim>\<open>pi[n1, n2]\<close>. The rest of
  \<^verbatim>\<open>policy_improvement(gamma)\<close> is the source's: \<^verbatim>\<open>changed = False\<close>, the loop over
  \<^verbatim>\<open>mdp.states_iter()\<close>, \<^verbatim>\<open>return changed\<close>.
\<close>

fun policy_improvement_loop ::
  "mdp \<Rightarrow> real \<Rightarrow> real array2 \<Rightarrow> (nat \<times> nat) list \<Rightarrow> int array2 \<Rightarrow> bool \<Rightarrow> py_error + (int array2 \<times> bool)" where
  "policy_improvement_loop m g Vt [] pt changed = Inr (pt, changed)"
| "policy_improvement_loop m g Vt ((n1, n2) # rest) pt changed =
     (case best_action m Vt n1 n2 g of
        Inl e \<Rightarrow> Inl e
      | Inr best_a \<Rightarrow>
         (case get2 pt n1 n2 of
            Inl e \<Rightarrow> Inl e
          | Inr old \<Rightarrow>
             if old \<noteq> best_a
             then (case set2 pt n1 n2 best_a of
                     Inl e \<Rightarrow> Inl e
                   | Inr pt' \<Rightarrow> policy_improvement_loop m g Vt rest pt' True)
             else policy_improvement_loop m g Vt rest pt changed))"

definition policy_improvement :: "mdp \<Rightarrow> real \<Rightarrow> dp \<Rightarrow> py_error + (bool \<times> dp)" where
  "policy_improvement m g w =
     (case policy_improvement_loop m g (V w) (states_iter m) (pi_tbl w) False of
        Inl e \<Rightarrow> Inl e
      | Inr (pt, changed) \<Rightarrow> Inr (changed, w\<lparr>pi_tbl := pt\<rparr>))"

text \<open>
  Modelled from the spec: the two callees in \<^verbatim>\<open>...(gamma=gamma, theta=theta)\<close> and
  \<^verbatim>\<open>changed = ...(gamma=gamma)\<close> are exercise blanks in the sources. The spec gives them:
  policy evaluation, then policy improvement (as the sources stand, calling the blank
  \<^verbatim>\<open>...\<close> raises \<^verbatim>\<open>TypeError\<close> in the first round). The rest of
  \<^verbatim>\<open>policy_iteration(gamma=0.9, theta=1.)\<close> is the source's. One round: print the step
  and visualize, the two calls, and \<^verbatim>\<open>if not changed\<close>: print \<^verbatim>\<open>i + 1\<close>, visualize and
  \<^verbatim>\<open>break\<close>; else \<^verbatim>\<open>i += 1\<close>. The function has no \<^verbatim>\<open>return\<close> statement: its value is
  \<^verbatim>\<open>None\<close>.
\<close>

definition policy_iteration_body ::
  "mdp \<Rightarrow> real \<Rightarrow> real \<Rightarrow> dp \<times> nat \<Rightarrow> (py_error + py_value \<times> dp, dp \<times> nat) flow option" where
  "policy_iteration_body m g theta = (\<lambda>(w, i).
     (let w1 = w\<lparr>out := out w @ [Print_iteration_step i, Visualize]\<rparr> in
      case policy_evaluation m g theta 0 w1 of
        None \<Rightarrow> None
      | Some (Inl e) \<Rightarrow> Some (Break (Inl e))
      | Some (Inr (r, w2)) \<Rightarrow>
         (case policy_improvement m g w2 of
            Inl e \<Rightarrow> Some (Break (Inl e))
          | Inr (changed, w3) \<Rightarrow>
             if \<not> changed
             then Some (Break (Inr (PyNone,
                    w3\<lparr>out := out w3 @ [Print_iteration_finished (i + 1), Visualize]\<rparr>)))
             else Some (Continue (w3, i + 1)))))"

definition policy_iteration :: "mdp \<Rightarrow> real \<Rightarrow> real \<Rightarrow> dp \<Rightarrow> (py_error + py_value \<times> dp) option" where
  "policy_iteration m g theta w = while_true (policy_iteration_body m g theta) (w, 0)"

subsection \<open>Example inputs\<close>

text \<open>
  A learner with four table entries and two transitions out of its state \<open>0\<close>; the same
  learner constructed with \<^verbatim>\<open>decay_steps=0\<close>, and with \<^verbatim>\<open>learning_rate=-1.0\<close> and
  \<^verbatim>\<open>decay_steps=2\<close>; and an MDP with the single state \<open>(0, 0)\<close> and two legal actions,
  both of which stay in the state with probability \<open>1\<close> and reward \<open>r\<close>; \<open>ones_policy\<close>
  are globals for it whose policy entry is the second action; and an MDP with the two
  states \<open>(0, 0)\<close> and \<open>(0, 1)\<close> and one legal action, which stays in the state with
  probability \<open>1\<close>, with reward \<open>0\<close> in the first state and \<open>1\<close> in the second.
\<close>

definition learner0 :: learner where
  "learner0 = TabularQLearning_init 2 2 (3/4) 1 (1/2)"

definition learner_no_decay :: learner where
  "learner_no_decay = TabularQLearning_init 2 2 (3/4) 0 (1/2)"

definition learner_negative :: learner where
  "learner_negative = TabularQLearning_init 2 2 (- 1) 2 (1/2)"

definition step0 :: transition where
  "step0 = \<lparr>state = 0, action = 1, reward = 1, next_state = 1, is_terminal = False\<rparr>"

definition last0 :: transition where
  "last0 = \<lparr>state = 0, action = 1, reward = 1, next_state = 1, is_terminal = True\<rparr>"

definition one_state_mdp :: "real \<Rightarrow> mdp" where
  "one_state_mdp r =
     \<lparr>states_iter = [(0, 0)],
      actions_in_state = (\<lambda>n1 n2. [0, 1]),
      T = (\<lambda>n1 n2 a n1' n2'. (1, r))\<rparr>"

definition two_state_mdp :: mdp where
  "two_state_mdp =
     \<lparr>states_iter = [(0, 0), (0, 1)],
      actions_in_state = (\<lambda>n1 n2. [0]),
      T = (\<lambda>n1 n2 a n1' n2'. (if (n1', n2') = (n1, n2) then 1 else 0, real n2))\<rparr>"

definition ones_policy :: dp where
  "ones_policy = \<lparr>pi_tbl = \<lparr>nrows = 1, ncols = 1, cell = (\<lambda>i j. 1)\<rparr>, V = zeros2 1 1, out = []\<rparr>"

section \<open>Facts about arrays and the loop combinator\<close>

lemma zeros2_sel [simp]:
  "nrows (zeros2 n k) = n" "ncols (zeros2 n k) = k" "cell (zeros2 n k) i j = 0"
  by (simp_all add: zeros2_def)

lemma zeros2_upd_0:
  "(zeros2 n k :: real array2)\<lparr>cell := (cell (zeros2 n k))(i := (cell (zeros2 n k) i)(j := 0))\<rparr>
     = zeros2 n k"
  by (simp add: zeros2_def fun_eq_iff)

lemma set2_shape:
  "set2 A i j v = Inr A' \<Longrightarrow> nrows A' = nrows A \<and> ncols A' = ncols A"
  by (auto simp: set2_def split: if_splits)

lemma while_steps_front:
  "while_steps (Suc n) body s =
     (case body s of Some (Continue s') \<Rightarrow> while_steps n body s' | _ \<Rightarrow> None)"
proof (induction n)
  case 0
  show ?case by (simp split: option.splits flow.splits)
next
  case (Suc n)
  have "while_steps (Suc (Suc n)) body s =
      (case while_steps (Suc n) body s of
        None \<Rightarrow> None
      | Some s' \<Rightarrow> (case body s' of Some (Continue s'') \<Rightarrow> Some s'' | _ \<Rightarrow> None))"
    by simp
  also have "\<dots> = (case body s of Some (Continue s') \<Rightarrow> while_steps (Suc n) body s' | _ \<Rightarrow> None)"
    by (subst Suc.IH) (simp split: option.splits flow.splits)
  finally show ?case .
qed

lemma while_true_steps:
  "while_steps n body s = Some s' \<Longrightarrow> while_true body s = while_true body s'"
proof (induction n arbitrary: s)
  case 0
  then show ?case by simp
next
  case (Suc n)
  from Suc.prems obtain s1 where b: "body s = Some (Continue s1)"
    and r: "while_steps n body s1 = Some s'"
    unfolding while_steps_front by (auto split: option.splits flow.splits)
  have "while_true body s = while_true body s1"
    by (subst while_true.simps) (simp add: b)
  with Suc.IH [OF r] show ?case by simp
qed

lemma while_true_SomeD:
  assumes "while_true body s = Some r"
  shows "\<exists>n s'. while_steps n body s = Some s' \<and> body s' = Some (Break r)"
proof (rule while_true.raw_induct
    [where P = "\<lambda>body s r. \<exists>n s'. while_steps n body s = Some s' \<and> body s' = Some (Break r)",
     OF _ assms])
  fix wt body s r
  assume IH: "\<And>b s y. wt b s = Some y \<Longrightarrow>
      \<exists>n s'. while_steps n b s = Some s' \<and> b s' = Some (Break y)"
  assume eq: "(case body s of None \<Rightarrow> None | Some (Break r) \<Rightarrow> Some r
      | Some (Continue s') \<Rightarrow> wt body s') = Some r"
  show "\<exists>n s'. while_steps n body s = Some s' \<and> body s' = Some (Break r)"
  proof (cases "body s")
    case None
    with eq show ?thesis by simp
  next
    case (Some fl)
    show ?thesis
    proof (cases fl)
      case (Break r')
      with Some eq have "while_steps 0 body s = Some s \<and> body s = Some (Break r)" by simp
      then show ?thesis by blast
    next
      case (Continue s1)
      with Some eq have "wt body s1 = Some r" by simp
      from IH [OF this] obtain n s' where
        "while_steps n body s1 = Some s'" "body s' = Some (Break r)" by blast
      with Some Continue have "while_steps (Suc n) body s = Some s' \<and> body s' = Some (Break r)"
        unfolding while_steps_front by simp
      then show ?thesis by blast
    qed
  qed
qed

lemma while_true_Some_iff:
  "while_true body s = Some r \<longleftrightarrow>
     (\<exists>n s'. while_steps n body s = Some s' \<and> body s' = Some (Break r))"
proof
  assume "while_true body s = Some r"
  then show "\<exists>n s'. while_steps n body s = Some s' \<and> body s' = Some (Break r)"
    by (rule while_true_SomeD)
next
  assume "\<exists>n s'. while_steps n body s = Some s' \<and> body s' = Some (Break r)"
  then obtain n s' where st: "while_steps n body s = Some s'" and b: "body s' = Some (Break r)"
    by blast
  have "while_true body s' = Some r"
    by (subst while_true.simps) (simp add: b)
  with while_true_steps [OF st] show "while_true body s = Some r" by simp
qed

lemma while_true_None_iff:
  "while_true body s = None \<longleftrightarrow>
     \<not> (\<exists>n s' r. while_steps n body s = Some s' \<and> body s' = Some (Break r))"
proof (cases "while_true body s")
  case None
  then show ?thesis using while_true_Some_iff [of body s] by auto
next
  case (Some r)
  then show ?thesis using while_true_Some_iff [of body s r] by auto
qed

lemma while_true_invariant_None:
  assumes inv: "I s"
    and step: "\<And>s. I s \<Longrightarrow> body s = None \<or> (\<exists>s'. body s = Some (Continue s') \<and> I s')"
  shows "while_true body s = None"
proof -
  have reach: "I s'" if "while_steps n body s = Some s'" for n s'
    using that
  proof (induction n arbitrary: s')
    case 0
    with inv show ?case by simp
  next
    case (Suc n)
    then obtain s1 where "while_steps n body s = Some s1" "body s1 = Some (Continue s')"
      by (auto split: option.splits flow.splits)
    with Suc.IH [of s1] step [of s1] show ?case by auto
  qed
  have "\<not> (\<exists>n s' r. while_steps n body s = Some s' \<and> body s' = Some (Break r))"
  proof
    assume "\<exists>n s' r. while_steps n body s = Some s' \<and> body s' = Some (Break r)"
    then obtain n s' r where st: "while_steps n body s = Some s'" and b: "body s' = Some (Break r)"
      by blast
    from reach [OF st] step [of s'] b show False by auto
  qed
  then show ?thesis unfolding while_true_None_iff .
qed

section \<open>The Q-learning update\<close>

lemma float_tiny_less_half: "float_tiny < 1 / 2"
proof -
  have "(2::real) ^ 2 \<le> 2 ^ 1075"
    by (rule power_increasing) simp_all
  then show ?thesis
    by (simp add: float_tiny_def field_simps)
qed

lemma float_overflow_greater_1: "1 < float_overflow"
proof -
  have "(2::real) ^ 1024 = 2 ^ 54 * 2 ^ 970"
    by (simp flip: power_add)
  moreover have "(1::real) \<le> 2 ^ 970"
    by simp
  ultimately show ?thesis
    by (simp add: float_overflow_def)
qed

lemma in_float_range_1 [simp]: "in_float_range 1"
  using float_tiny_less_half float_overflow_greater_1 by (simp add: in_float_range_def)

lemma in_float_range_half [simp]: "in_float_range (1 / 2)"
  using float_tiny_less_half float_overflow_greater_1 by (simp add: in_float_range_def)

lemma py_int_truediv_in_range:
  "b \<noteq> 0 \<Longrightarrow> in_float_range (real_of_int a / real_of_int b) \<Longrightarrow>
     py_int_truediv a b = Inr (real_of_int a / real_of_int b)"
  by (auto simp: py_int_truediv_def in_float_range_def)

lemma py_pow_positive_base:
  "0 < x \<Longrightarrow> x powr y < float_overflow \<Longrightarrow> py_pow x y = Inr (PyFloat (x powr y))"
  by (simp add: py_pow_def)

lemma py_pow_nonnegative_base: "0 \<le> x \<Longrightarrow> py_pow x y = Inr a \<Longrightarrow> \<exists>r. a = PyFloat r"
  by (auto simp: py_pow_def split: if_splits)

lemma LR_return [simp]: "LR (self\<lparr>return := r\<rparr>) = LR self"
  by (simp add: LR_def split: sum.splits)

lemma target_return [simp]: "target (self\<lparr>return := r\<rparr>) t = target self t"
  by (simp add: target_def split: sum.splits)

lemma on_step_taken_Inr:
  "on_step_taken self t = Inr self' \<longleftrightarrow>
     (\<exists>a tg q. LR self = Inr a \<and> target self t = Inr tg \<and>
        get2 (Q self) (state t) (action t) = Inr q \<and>
        self' = self\<lparr>return := return self + reward t,
                     Q := (Q self)\<lparr>cell := (cell (Q self))
                            (state t := (cell (Q self) (state t))(action t := stored_value q a tg))\<rparr>,
                     episode_count :=
                       (if is_terminal t then episode_count self + 1 else episode_count self)\<rparr>)"
  by (auto simp: on_step_taken_def Let_def get2_def set2_def split: sum.splits if_splits)

lemma on_step_taken_Inl:
  "on_step_taken self t = Inl (err, self') \<Longrightarrow> self' = self\<lparr>return := return self + reward t\<rparr>"
  by (auto simp: on_step_taken_def Let_def split: sum.splits)

lemma LR_positive_base:
  "0 < lr self \<Longrightarrow> decay self \<noteq> 0 \<Longrightarrow>
   in_float_range (real_of_int (episode_count self) / real_of_int (decay self)) \<Longrightarrow>
   lr self powr (real_of_int (episode_count self) / real_of_int (decay self)) < float_overflow \<Longrightarrow>
     LR self =
       Inr (PyFloat (lr self powr (real_of_int (episode_count self) / real_of_int (decay self))))"
  by (simp add: LR_def py_int_truediv_in_range py_pow_positive_base)

lemma LR_nonnegative_base: "0 \<le> lr self \<Longrightarrow> LR self = Inr a \<Longrightarrow> \<exists>r. a = PyFloat r"
  by (auto simp: LR_def split: sum.splits dest: py_pow_nonnegative_base)

lemma target_value:
  "is_terminal t \<or> (next_state t < nrows (Q self) \<and> 0 < ncols (Q self)) \<Longrightarrow>
     target self t =
       Inr (if is_terminal t then reward t
            else reward t + gamma self *
                   Max (set (map (cell (Q self) (next_state t)) [0..<ncols (Q self)])))"
  by (auto simp: target_def get_row_def np_max_def)

lemma learner0_sel [simp]:
  "lr learner0 = 3/4" "decay learner0 = 1" "gamma learner0 = 1/2"
  "episode_count learner0 = 1" "return learner0 = 0" "running_avg learner0 = [0]"
  "Q learner0 = zeros2 2 2"
  by (simp_all add: learner0_def TabularQLearning_init_def)

lemma LR_learner0: "LR learner0 = Inr (PyFloat (3/4))"
proof -
  have "(3/4 :: real) < float_overflow"
    using float_overflow_greater_1 by simp
  then show ?thesis
    by (simp add: LR_positive_base)
qed

lemma target_step0: "target learner0 step0 = Inr 1"
  by (simp add: target_value step0_def)

lemma target_last0: "target learner0 last0 = Inr 1"
  by (simp add: target_def last0_def)

lemma get2_step0: "get2 (Q learner0) (state step0) (action step0) = Inr 0"
  by (simp add: step0_def get2_def)

lemma get2_last0: "get2 (Q learner0) (state last0) (action last0) = Inr 0"
  by (simp add: last0_def get2_def)

lemma on_step_taken_step0:
  "\<exists>self'. on_step_taken learner0 step0 = Inr self'"
  using LR_learner0 target_step0 get2_step0 unfolding on_step_taken_Inr by blast

lemma on_step_taken_last0:
  "\<exists>self'. on_step_taken learner0 last0 = Inr self'"
  using LR_learner0 target_last0 get2_last0 unfolding on_step_taken_Inr by blast

lemma learner_no_decay_sel [simp]:
  "decay learner_no_decay = 0" "episode_count learner_no_decay = 1"
  by (simp_all add: learner_no_decay_def TabularQLearning_init_def)

lemma LR_learner_no_decay: "LR learner_no_decay = Inl ZeroDivisionError"
  by (simp add: LR_def py_int_truediv_def)

lemma learner_negative_sel [simp]:
  "lr learner_negative = - 1" "decay learner_negative = 2" "gamma learner_negative = 1/2"
  "episode_count learner_negative = 1" "Q learner_negative = zeros2 2 2"
  by (simp_all add: learner_negative_def TabularQLearning_init_def)

lemma LR_learner_negative: "LR learner_negative = Inr (PyComplex \<i>)"
proof -
  have "py_int_truediv 1 2 = Inr (1 / 2)"
    using py_int_truediv_in_range [of 2 1] by simp
  moreover have "py_pow (- 1) (1 / 2) = Inr (PyComplex \<i>)"
  proof -
    have "\<lfloor>1 / 2 :: real\<rfloor> = 0"
      by simp
    then have "(1 / 2 :: real) \<noteq> of_int \<lfloor>1 / 2 :: real\<rfloor>"
      by simp
    moreover have "cis (pi * (1 / 2)) = \<i>"
      by (simp add: cis_pi_half)
    ultimately show ?thesis
      using float_overflow_greater_1 by (simp add: py_pow_def)
  qed
  ultimately show ?thesis
    by (simp add: LR_def)
qed

lemma target_learner_negative: "target learner_negative step0 = Inr 1"
  by (simp add: target_value step0_def)

lemma get2_learner_negative:
  "get2 (Q learner_negative) (state step0) (action step0) = Inr 0"
  by (simp add: step0_def get2_def)

lemma on_step_taken_negative_last0:
  "\<exists>self'. on_step_taken learner_negative last0 = Inr self'"
proof -
  have "target learner_negative last0 = Inr 1"
    by (simp add: target_def last0_def)
  moreover have "get2 (Q learner_negative) (state last0) (action last0) = Inr 0"
    by (simp add: last0_def get2_def)
  ultimately show ?thesis
    using LR_learner_negative unfolding on_step_taken_Inr by blast
qed



text \<open>
  C6. A terminal transition does not always increment the episode counter: on the
  learner constructed with \<^verbatim>\<open>decay_steps=0\<close> the call raises \<^verbatim>\<open>ZeroDivisionError\<close> at
  the learning rate, before the increment, and the counter is still \<open>1\<close> after it.
\<close>

theorem terminal_call_without_increment:
  "is_terminal last0 \<and>
   on_step_taken learner_no_decay last0 =
     Inl (ZeroDivisionError, learner_no_decay\<lparr>return := return learner_no_decay + 1\<rparr>) \<and>
   episode_count learner_no_decay = 1 \<and>
   episode_count (after_call (on_step_taken learner_no_decay last0)) = 1"
  by (simp add: on_step_taken_def LR_learner_no_decay after_call_def last0_def)

text \<open>
  C6, as the code has it. The episode counter is \<open>1\<close> right after construction; a call of
  \<open>on_step_taken\<close> that returns increments it by exactly \<open>1\<close> when the transition is
  terminal and leaves it unchanged otherwise; and a call that raises leaves it unchanged,
  whether the transition is terminal or not.
\<close>

theorem episode_counter:
  "episode_count (TabularQLearning_init nstates nactions learning_rate decay_steps discount_factor) = 1 \<and>
   (on_step_taken self t = Inr self' \<longrightarrow>
      episode_count self' = (if is_terminal t then episode_count self + 1 else episode_count self)) \<and>
   (on_step_taken self t = Inl (err, self') \<longrightarrow> episode_count self' = episode_count self)"
  by (auto simp: TabularQLearning_init_def on_step_taken_Inr dest: on_step_taken_Inl)

theorem episode_counter_witness:
  "(\<exists>self'. on_step_taken learner0 last0 = Inr self' \<and> episode_count self' = 2) \<and>
   (\<exists>self'. on_step_taken learner0 step0 = Inr self' \<and> episode_count self' = 1) \<and>
   (\<exists>self'. on_step_taken learner_no_decay last0 = Inl (ZeroDivisionError, self') \<and>
      episode_count self' = 1) \<and>
   (\<exists>self'. on_step_taken learner_negative last0 = Inr self' \<and> episode_count self' = 2)"
proof -
  from on_step_taken_last0 obtain s1 where s1: "on_step_taken learner0 last0 = Inr s1" by blast
  from on_step_taken_negative_last0 obtain s4 where
    s4: "on_step_taken learner_negative last0 = Inr s4" by blast
  from on_step_taken_step0 obtain s2 where s2: "on_step_taken learner0 step0 = Inr s2" by blast
  obtain s3 where s3: "on_step_taken learner_no_decay last0 = Inl (ZeroDivisionError, s3)"
    by (simp add: on_step_taken_def LR_learner_no_decay)
  have "episode_count s1 = 2"
    using episode_counter [of 2 2 "3/4" 1 "1/2" learner0 last0 s1] s1 by (simp add: last0_def)
  moreover have "episode_count s2 = 1"
    using episode_counter [of 2 2 "3/4" 1 "1/2" learner0 step0 s2] s2 by (simp add: step0_def)
  moreover have "episode_count s3 = 1"
    using episode_counter [of 2 2 "3/4" 1 "1/2" learner_no_decay last0 s3 ZeroDivisionError] s3
    by simp
  moreover have "episode_count s4 = 2"
    using episode_counter [of 2 2 "3/4" 1 "1/2" learner_negative last0 s4] s4
    by (simp add: last0_def)
  ultimately show ?thesis using s1 s2 s3 s4 by blast
qed

text \<open>
  C8. A call of \<open>on_step_taken\<close>, whether it returns or raises, leaves every entry of the
  Q-table other than \<open>Q[state, action]\<close> as it was.
\<close>

theorem on_step_taken_frame:
  "(s, a) \<noteq> (state t, action t) \<Longrightarrow>
    get2 (Q (after_call (on_step_taken self t))) s a = get2 (Q self) s a"
  by (auto simp: on_step_taken_def after_call_def Let_def get2_def set2_def
      split: sum.splits if_splits)

theorem on_step_taken_frame_witness:
  "(1::nat, 1::nat) \<noteq> (state step0, action step0) \<and>
   get2 (Q (after_call (on_step_taken learner0 step0))) 1 1 = Inr 0"
  using on_step_taken_frame [of 1 1 step0 learner0]
  by (simp add: step0_def get2_def)

text \<open>
  C9. The written value is not always \<open>(1 - \<alpha>) * Q[state, action] + \<alpha> * target\<close>: on the
  learner constructed with \<^verbatim>\<open>learning_rate=-1.0\<close> and \<^verbatim>\<open>decay_steps=2\<close> the learning rate
  \<^verbatim>\<open>pow(-1.0, 0.5)\<close> is a complex number with a non-zero imaginary part, the call returns,
  and the float it stores in \<open>Q[state, action]\<close> is not the complex number
  \<open>(1 - \<alpha>) * 0 + \<alpha> * 1\<close>.
\<close>

theorem q_update_not_convex:
  "\<exists>self' c x. on_step_taken learner_negative step0 = Inr self' \<and>
     LR learner_negative = Inr (PyComplex c) \<and> Im c \<noteq> 0 \<and>
     target learner_negative step0 = Inr 1 \<and>
     get2 (Q learner_negative) (state step0) (action step0) = Inr 0 \<and>
     get2 (Q self') (state step0) (action step0) = Inr x \<and>
     complex_of_real x \<noteq> (1 - c) * complex_of_real 0 + c * complex_of_real 1"
proof -
  obtain self' where s: "on_step_taken learner_negative step0 = Inr self'"
    and Q': "Q self' = (Q learner_negative)\<lparr>cell := (cell (Q learner_negative))
               (state step0 := (cell (Q learner_negative) (state step0))
                  (action step0 := stored_value 0 (PyComplex \<i>) 1))\<rparr>"
    using LR_learner_negative target_learner_negative get2_learner_negative
    by (auto simp: on_step_taken_Inr simp del: fun_upd_apply)
  have "get2 (Q self') (state step0) (action step0) = Inr 0"
    by (simp add: Q' get2_def step0_def stored_value_def)
  moreover have "complex_of_real 0 \<noteq> (1 - \<i>) * complex_of_real 0 + \<i> * complex_of_real 1"
    by (simp add: complex_eq_iff)
  ultimately show ?thesis
    using s LR_learner_negative target_learner_negative get2_learner_negative
    by (intro exI [of _ self'] exI [of _ \<i>] exI [of _ 0]) simp
qed

text \<open>
  C9, as the code has it. The value that a returning call of \<open>on_step_taken\<close> writes into
  \<open>Q[state, action]\<close> is the real part of \<open>(1 - \<alpha>) * Q[state, action] + \<alpha> * target\<close>.
  When \<open>\<alpha>\<close> is a float, as it is for every base learning rate that is not negative, the
  written value is \<open>(1 - \<alpha>) * Q[state, action] + \<alpha> * target\<close> itself, and for \<open>\<alpha>\<close> in
  \<open>[0, 1]\<close> it lies between the old entry and the target. When the target equals the old
  entry the whole Q-table is unchanged.
\<close>

theorem q_update_convex:
  "on_step_taken self t = Inr self' \<Longrightarrow>
   \<exists>a tg q. LR self = Inr a \<and> target self t = Inr tg \<and>
     get2 (Q self) (state t) (action t) = Inr q \<and>
     get2 (Q self') (state t) (action t) =
       Inr (Re ((1 - as_complex a) * complex_of_real q + as_complex a * complex_of_real tg)) \<and>
     (\<forall>r. a = PyFloat r \<longrightarrow>
        get2 (Q self') (state t) (action t) = Inr ((1 - r) * q + r * tg) \<and>
        (0 \<le> r \<and> r \<le> 1 \<longrightarrow>
           min q tg \<le> (1 - r) * q + r * tg \<and> (1 - r) * q + r * tg \<le> max q tg)) \<and>
     (0 \<le> lr self \<longrightarrow> (\<exists>r. a = PyFloat r)) \<and>
     (tg = q \<longrightarrow> Q self' = Q self)"
proof -
  assume "on_step_taken self t = Inr self'"
  then obtain a tg q where a: "LR self = Inr a" and tg: "target self t = Inr tg"
    and q: "get2 (Q self) (state t) (action t) = Inr q"
    and Q': "Q self' = (Q self)\<lparr>cell := (cell (Q self))
               (state t := (cell (Q self) (state t))(action t := stored_value q a tg))\<rparr>"
    by (auto simp: on_step_taken_Inr simp del: fun_upd_apply)
  from q have rng: "state t < nrows (Q self)" "action t < ncols (Q self)"
    and qv: "q = cell (Q self) (state t) (action t)"
    by (auto simp: get2_def split: if_splits)
  have stored: "get2 (Q self') (state t) (action t) = Inr (stored_value q a tg)"
    using rng by (simp add: Q' get2_def)
  have re: "stored_value q a tg =
      Re ((1 - as_complex a) * complex_of_real q + as_complex a * complex_of_real tg)"
    by (cases a) (simp_all add: stored_value_def as_complex_def algebra_simps)
  have float: "stored_value q a tg = (1 - r) * q + r * tg" if "a = PyFloat r" for r
    using that by (simp add: stored_value_def algebra_simps)
  have between: "min q tg \<le> (1 - r) * q + r * tg \<and> (1 - r) * q + r * tg \<le> max q tg"
    if "0 \<le> r \<and> r \<le> 1" for r :: real
  proof -
    have 1: "(1 - r) * q + r * tg - min q tg = (1 - r) * (q - min q tg) + r * (tg - min q tg)"
      by (simp add: algebra_simps)
    have 2: "max q tg - ((1 - r) * q + r * tg) = (1 - r) * (max q tg - q) + r * (max q tg - tg)"
      by (simp add: algebra_simps)
    have "0 \<le> (1 - r) * (q - min q tg) + r * (tg - min q tg)"
      using that by (intro add_nonneg_nonneg mult_nonneg_nonneg) auto
    moreover have "0 \<le> (1 - r) * (max q tg - q) + r * (max q tg - tg)"
      using that by (intro add_nonneg_nonneg mult_nonneg_nonneg) auto
    ultimately show ?thesis using 1 2 by linarith
  qed
  have is_float: "\<exists>r. a = PyFloat r" if "0 \<le> lr self"
    using that a by (rule LR_nonnegative_base)
  have fixed: "Q self' = Q self" if "tg = q"
  proof -
    have "stored_value q a q = q"
      by (cases a) (simp_all add: stored_value_def)
    with that qv show ?thesis by (simp add: Q')
  qed
  have new: "get2 (Q self') (state t) (action t) =
      Inr (Re ((1 - as_complex a) * complex_of_real q + as_complex a * complex_of_real tg))"
    using stored re by (simp only:)
  have fl: "\<forall>r. a = PyFloat r \<longrightarrow>
        get2 (Q self') (state t) (action t) = Inr ((1 - r) * q + r * tg) \<and>
        (0 \<le> r \<and> r \<le> 1 \<longrightarrow>
           min q tg \<le> (1 - r) * q + r * tg \<and> (1 - r) * q + r * tg \<le> max q tg)"
    using stored float between by (simp only:) blast
  from a tg q new fl is_float fixed show ?thesis
    by blast
qed

theorem q_update_convex_witness:
  "\<exists>self'. on_step_taken learner0 step0 = Inr self' \<and>
     get2 (Q self') (state step0) (action step0) = Inr ((1 - 3/4) * 0 + 3/4 * 1)"
proof -
  from on_step_taken_step0 obtain s1 where s1: "on_step_taken learner0 step0 = Inr s1" by blast
  from q_update_convex [OF s1] obtain a tg q where
    "LR learner0 = Inr a" "target learner0 step0 = Inr tg"
    "get2 (Q learner0) (state step0) (action step0) = Inr q"
    and new: "\<forall>r. a = PyFloat r \<longrightarrow>
        get2 (Q s1) (state step0) (action step0) = Inr ((1 - r) * q + r * tg) \<and>
        (0 \<le> r \<and> r \<le> 1 \<longrightarrow>
           min q tg \<le> (1 - r) * q + r * tg \<and> (1 - r) * q + r * tg \<le> max q tg)"
    by blast
  with LR_learner0 target_step0 get2_step0 have "a = PyFloat (3/4)" "tg = 1" "q = 0" by simp_all
  with new have "get2 (Q s1) (state step0) (action step0) = Inr ((1 - 3/4) * 0 + 3/4 * 1)"
    by blast
  with s1 show ?thesis by blast
qed

section \<open>Action scores\<close>

text \<open>
  C7. For a state inside the table and an episode counter \<open>e\<close> (never \<open>0\<close>), \<open>plan\<close>
  returns the vector with one score per action \<open>a\<close>: \<open>Q[s, a]\<close> plus the \<open>a\<close>-th draw of
  \<^verbatim>\<open>np.random.randn\<close> scaled by \<open>1 / e\<close>. It returns all the scores and picks no action.
\<close>

theorem plan_scores:
  "s < nrows (Q self) \<Longrightarrow> episode_count self \<noteq> 0 \<Longrightarrow>
   fst (plan self s g) =
     Inr (map (\<lambda>a. cell (Q self) s a + g !! a * (1 / real_of_int (episode_count self)))
            [0..<ncols (Q self)])"
  by (auto simp: plan_def randn_def py_truediv_def get_row_def Let_def
      intro!: nth_equalityI simp: stake_nth)

theorem plan_scores_witness:
  "(0::nat) < nrows (Q learner0) \<and> episode_count learner0 \<noteq> 0 \<and>
   fst (plan learner0 0 (sconst 1)) = Inr [1, 1]"
  using plan_scores [of 0 learner0 "sconst 1"]
  by (simp add: numeral_2_eq_2)

text \<open>
  C10. \<open>plan\<close> never modifies the learner: the object after the call is the object
  before it, so its Q-table, episode counter, accumulated return and running-average list
  are the same.
\<close>

theorem plan_leaves_learner_unchanged:
  "fst (snd (plan self s g)) = self \<and>
   Q (fst (snd (plan self s g))) = Q self \<and>
   episode_count (fst (snd (plan self s g))) = episode_count self \<and>
   return (fst (snd (plan self s g))) = return self \<and>
   running_avg (fst (snd (plan self s g))) = running_avg self"
proof -
  have "fst (snd (plan self s g)) = self"
    by (simp add: plan_def randn_def Let_def split: sum.splits prod.splits)
  then show ?thesis by simp
qed

section \<open>The one-state examples\<close>

lemma one_state_mdp_sel [simp]:
  "states_iter (one_state_mdp r) = [(0, 0)]"
  "actions_in_state (one_state_mdp r) n1 n2 = [0, 1]"
  "T (one_state_mdp r) n1 n2 a n1' n2' = (1, r)"
  by (simp_all add: one_state_mdp_def)

lemma dp_init_sel [simp]:
  "pi_tbl (dp_init N1 N2) = zeros2 N1 N2" "V (dp_init N1 N2) = zeros2 N1 N2" "out (dp_init N1 N2) = []"
  by (simp_all add: dp_init_def)

lemma one_state_q_value:
  "0 < nrows Vt \<Longrightarrow> 0 < ncols Vt \<Longrightarrow>
   q_value (one_state_mdp r) Vt n1 n2 a g = Inr (r + g * cell Vt 0 0)"
  by (simp add: q_value_def get2_def)

lemma one_state_sweep:
  "0 < nrows pt \<Longrightarrow> 0 < ncols pt \<Longrightarrow> 0 < nrows Vt \<Longrightarrow> 0 < ncols Vt \<Longrightarrow>
   sweep (one_state_mdp r) g pt (states_iter (one_state_mdp r)) Vt =
     Inr (Vt\<lparr>cell := (cell Vt)(0 := (cell Vt 0)(0 := r + g * cell Vt 0 0))\<rparr>)"
  by (simp add: one_state_q_value get2_def set2_def)

text \<open>With reward \<open>0\<close> a sweep over the zero table changes nothing.\<close>

lemma one_state_quiet_sweep:
  "sweep (one_state_mdp 0) g (zeros2 (Suc 0) (Suc 0)) (states_iter (one_state_mdp 0)) (zeros2 (Suc 0) (Suc 0))
     = Inr (zeros2 (Suc 0) (Suc 0))"
  by (simp add: one_state_sweep zeros2_upd_0 del: one_state_mdp_sel)

lemma zeros2_diff: "max_abs_diff (zeros2 (Suc 0) (Suc 0)) (zeros2 (Suc 0) (Suc 0)) = Inr 0"
  by (simp add: max_abs_diff_def np_max_def)

lemma policy_evaluation_quiet_out:
  "policy_evaluation (one_state_mdp 0) g 1 0 \<lparr>pi_tbl = zeros2 1 1, V = zeros2 1 1, out = l\<rparr> =
     Some (Inr (PyNone, \<lparr>pi_tbl = zeros2 1 1, V = zeros2 1 1, out = l @ [Print_evaluation_finished 1]\<rparr>))"
proof -
  have "policy_evaluation_body (one_state_mdp 0) g 1 0 (\<lparr>pi_tbl = zeros2 1 1, V = zeros2 1 1, out = l\<rparr>, 0) =
     Some (Break (Inr (PyNone, \<lparr>pi_tbl = zeros2 1 1, V = zeros2 1 1, out = l @ [Print_evaluation_finished 1]\<rparr>)))"
    by (simp add: policy_evaluation_body_def visualization_def Let_def
        one_state_quiet_sweep zeros2_diff del: one_state_mdp_sel)
  then show ?thesis
    unfolding policy_evaluation_def
    by (subst while_true.simps) (simp only: option.case flow.case)
qed

lemma policy_evaluation_quiet:
  "policy_evaluation (one_state_mdp 0) (9/10) 1 0 (dp_init 1 1) =
     Some (Inr (PyNone, \<lparr>pi_tbl = zeros2 1 1, V = zeros2 1 1, out = [Print_evaluation_finished 1]\<rparr>))"
proof -
  have "policy_evaluation_body (one_state_mdp 0) (9/10) 1 0 (dp_init 1 1, 0) =
     Some (Break (Inr (PyNone, \<lparr>pi_tbl = zeros2 1 1, V = zeros2 1 1, out = [Print_evaluation_finished 1]\<rparr>)))"
    by (simp add: policy_evaluation_body_def visualization_def Let_def
        one_state_quiet_sweep zeros2_diff dp_init_def del: one_state_mdp_sel)
  then show ?thesis
    unfolding policy_evaluation_def
    by (subst while_true.simps) (simp only: option.case flow.case)
qed

lemma one_state_best_action:
  "0 < nrows Vt \<Longrightarrow> 0 < ncols Vt \<Longrightarrow> best_action (one_state_mdp r) Vt n1 n2 g = Inr 0"
  by (simp add: best_action_def one_state_q_value np_argmax_def)

lemma policy_improvement_quiet:
  "policy_improvement (one_state_mdp r) g \<lparr>pi_tbl = zeros2 1 1, V = zeros2 1 1, out = l\<rparr> =
     Inr (False, \<lparr>pi_tbl = zeros2 1 1, V = zeros2 1 1, out = l\<rparr>)"
  by (simp add: policy_improvement_def one_state_best_action get2_def)

section \<open>Policy evaluation\<close>

lemma visualization_fields [simp]:
  "V (visualization ve i w) = V w" "pi_tbl (visualization ve i w) = pi_tbl w"
  by (simp_all add: visualization_def)

lemma policy_evaluation_body_Continue:
  "policy_evaluation_body m g theta ve (w, i) = Some (Continue (w', i')) \<longleftrightarrow>
     (\<exists>B d. sweep m g (pi_tbl w) (states_iter m) (V w) = Inr B \<and>
        max_abs_diff (V w) B = Inr d \<and> \<not> d < theta \<and> i' = i + 1 \<and>
        w' = (visualization ve i w)\<lparr>V := B\<rparr>)"
  by (auto simp: policy_evaluation_body_def Let_def split: sum.splits)

lemma policy_evaluation_body_Break:
  "policy_evaluation_body m g theta ve (w, i) = Some (Break (Inr (r, w'))) \<longleftrightarrow>
     (\<exists>B d. sweep m g (pi_tbl w) (states_iter m) (V w) = Inr B \<and>
        max_abs_diff (V w) B = Inr d \<and> d < theta \<and> r = PyNone \<and>
        w' = (visualization ve i w)
               \<lparr>V := B, out := out (visualization ve i w) @ [Print_evaluation_finished (i + 1)]\<rparr>)"
  by (auto simp: policy_evaluation_body_def Let_def split: sum.splits)

lemma policy_evaluation_steps_sound:
  "while_steps n (policy_evaluation_body m g theta ve) (w, i) = Some (w', i') \<Longrightarrow>
     i' = i + n \<and> pi_tbl w' = pi_tbl w \<and>
     sweeps n m g (pi_tbl w) (V w) = Inr (V w') \<and>
     (\<forall>k<n. \<exists>d. sweep_diff k m g (pi_tbl w) (V w) = Inr d \<and> \<not> d < theta)"
proof (induction n arbitrary: w' i')
  case 0
  then show ?case by simp
next
  case (Suc n)
  from Suc.prems obtain w1 i1 where
    st: "while_steps n (policy_evaluation_body m g theta ve) (w, i) = Some (w1, i1)" and
    b: "policy_evaluation_body m g theta ve (w1, i1) = Some (Continue (w', i'))"
    by (auto split: option.splits flow.splits)
  from Suc.IH [OF st] have IH: "i1 = i + n" "pi_tbl w1 = pi_tbl w"
    "sweeps n m g (pi_tbl w) (V w) = Inr (V w1)"
    "\<forall>k<n. \<exists>d. sweep_diff k m g (pi_tbl w) (V w) = Inr d \<and> \<not> d < theta"
    by auto
  from b obtain B d where
    sw: "sweep m g (pi_tbl w1) (states_iter m) (V w1) = Inr B" and
    d: "max_abs_diff (V w1) B = Inr d" "\<not> d < theta" and
    i': "i' = i1 + 1" and w': "w' = (visualization ve i1 w1)\<lparr>V := B\<rparr>"
    unfolding policy_evaluation_body_Continue by blast
  have 1: "i' = i + Suc n" using i' IH(1) by simp
  have 2: "pi_tbl w' = pi_tbl w" using w' IH(2) by simp
  have 3: "sweeps (Suc n) m g (pi_tbl w) (V w) = Inr (V w')"
    using IH(2,3) sw w' by simp
  have 4: "sweep_diff n m g (pi_tbl w) (V w) = Inr d"
    using IH(2,3) sw d(1) by (simp add: sweep_diff_def)
  have 5: "\<forall>k<Suc n. \<exists>d. sweep_diff k m g (pi_tbl w) (V w) = Inr d \<and> \<not> d < theta"
  proof (intro allI impI)
    fix k assume "k < Suc n"
    then consider "k < n" | "k = n" by linarith
    then show "\<exists>d. sweep_diff k m g (pi_tbl w) (V w) = Inr d \<and> \<not> d < theta"
    proof cases
      case 1
      with IH(4) show ?thesis by blast
    next
      case 2
      with 4 d(2) show ?thesis by blast
    qed
  qed
  from 1 2 3 5 show ?case by blast
qed

lemma policy_evaluation_steps_complete:
  "\<forall>k<n. \<exists>d. sweep_diff k m g (pi_tbl w) (V w) = Inr d \<and> \<not> d < theta \<Longrightarrow>
     \<exists>w'. while_steps n (policy_evaluation_body m g theta ve) (w, i) = Some (w', i + n) \<and>
       sweeps n m g (pi_tbl w) (V w) = Inr (V w') \<and> pi_tbl w' = pi_tbl w"
proof (induction n)
  case 0
  show ?case by simp
next
  case (Suc n)
  from Suc.prems have "\<forall>k<n. \<exists>d. sweep_diff k m g (pi_tbl w) (V w) = Inr d \<and> \<not> d < theta"
    by auto
  from Suc.IH [OF this] obtain w1 where
    st: "while_steps n (policy_evaluation_body m g theta ve) (w, i) = Some (w1, i + n)" and
    sw: "sweeps n m g (pi_tbl w) (V w) = Inr (V w1)" and pt: "pi_tbl w1 = pi_tbl w"
    by blast
  from Suc.prems obtain d where d: "sweep_diff n m g (pi_tbl w) (V w) = Inr d" "\<not> d < theta"
    by blast
  from d(1) sw obtain B where
    B: "sweep m g (pi_tbl w) (states_iter m) (V w1) = Inr B" "max_abs_diff (V w1) B = Inr d"
    by (auto simp: sweep_diff_def split: sum.splits)
  let ?w' = "(visualization ve (i + n) w1)\<lparr>V := B\<rparr>"
  have "policy_evaluation_body m g theta ve (w1, i + n) = Some (Continue (?w', i + Suc n))"
    unfolding policy_evaluation_body_Continue using B d(2) pt by auto
  with st have "while_steps (Suc n) (policy_evaluation_body m g theta ve) (w, i) = Some (?w', i + Suc n)"
    by simp
  moreover have "sweeps (Suc n) m g (pi_tbl w) (V w) = Inr (V ?w')"
    using sw B(1) by simp
  moreover have "pi_tbl ?w' = pi_tbl w" using pt by simp
  ultimately show ?case by blast
qed


lemma policy_evaluation_body_total:
  "\<exists>x. policy_evaluation_body m g theta ve (w, i) = Some x"
  by (simp add: policy_evaluation_body_def Let_def split: sum.splits)

text \<open>
  The loop in terms of \<open>sweep_diff\<close>: the call returns after sweep \<open>n + 1\<close> if and only
  if that sweep is the first one whose \<^verbatim>\<open>max_diff\<close> is below \<open>\<theta>\<close>, and it never returns
  if and only if every sweep completes with a \<^verbatim>\<open>max_diff\<close> that is not below \<open>\<theta>\<close>.
\<close>

lemma policy_evaluation_stops_sweep_diff:
  "((\<exists>r w'. policy_evaluation m g theta ve w = Some (Inr (r, w')) \<and> V w' = B) \<longleftrightarrow>
      (\<exists>n d. sweep_diff n m g (pi_tbl w) (V w) = Inr d \<and> d < theta \<and>
         sweeps (Suc n) m g (pi_tbl w) (V w) = Inr B \<and>
         (\<forall>k<n. \<exists>d'. sweep_diff k m g (pi_tbl w) (V w) = Inr d' \<and> \<not> d' < theta))) \<and>
   (policy_evaluation m g theta ve w = None \<longleftrightarrow>
      (\<forall>k. \<exists>d'. sweep_diff k m g (pi_tbl w) (V w) = Inr d' \<and> \<not> d' < theta))"
proof (intro conjI iffI)
  let ?body = "policy_evaluation_body m g theta ve"
  let ?cont = "\<lambda>k. \<exists>d'. sweep_diff k m g (pi_tbl w) (V w) = Inr d' \<and> \<not> d' < theta"
  {
    assume "\<exists>r w'. policy_evaluation m g theta ve w = Some (Inr (r, w')) \<and> V w' = B"
    then obtain r w' where ret: "while_true ?body (w, 0) = Some (Inr (r, w'))" and B: "V w' = B"
      by (auto simp: policy_evaluation_def)
    from ret obtain n wn i where st: "while_steps n ?body (w, 0) = Some (wn, i)"
      and br: "?body (wn, i) = Some (Break (Inr (r, w')))"
      unfolding while_true_Some_iff by auto
    from policy_evaluation_steps_sound [OF st] have snd: "pi_tbl wn = pi_tbl w"
      "sweeps n m g (pi_tbl w) (V w) = Inr (V wn)" "\<forall>k<n. ?cont k"
      by auto
    from br obtain B' d where sw: "sweep m g (pi_tbl wn) (states_iter m) (V wn) = Inr B'"
      and d: "max_abs_diff (V wn) B' = Inr d" "d < theta" and w': "V w' = B'"
      unfolding policy_evaluation_body_Break by auto
    have "sweep_diff n m g (pi_tbl w) (V w) = Inr d"
      using snd(1,2) sw d(1) by (simp add: sweep_diff_def)
    moreover have "sweeps (Suc n) m g (pi_tbl w) (V w) = Inr B"
      using snd(1,2) sw w' B by simp
    ultimately show "\<exists>n d. sweep_diff n m g (pi_tbl w) (V w) = Inr d \<and> d < theta \<and>
         sweeps (Suc n) m g (pi_tbl w) (V w) = Inr B \<and> (\<forall>k<n. ?cont k)"
      using d(2) snd(3) by blast
  }
  {
    assume "\<exists>n d. sweep_diff n m g (pi_tbl w) (V w) = Inr d \<and> d < theta \<and>
         sweeps (Suc n) m g (pi_tbl w) (V w) = Inr B \<and> (\<forall>k<n. ?cont k)"
    then obtain n d where d: "sweep_diff n m g (pi_tbl w) (V w) = Inr d" "d < theta"
      and B: "sweeps (Suc n) m g (pi_tbl w) (V w) = Inr B" and c: "\<forall>k<n. ?cont k"
      by blast
    from policy_evaluation_steps_complete [OF c, of ve 0] obtain wn where
      st: "while_steps n ?body (w, 0) = Some (wn, n)" and
      sw: "sweeps n m g (pi_tbl w) (V w) = Inr (V wn)" and pt: "pi_tbl wn = pi_tbl w"
      by auto
    from B sw have B': "sweep m g (pi_tbl w) (states_iter m) (V wn) = Inr B" by simp
    with d(1) sw have md: "max_abs_diff (V wn) B = Inr d" by (simp add: sweep_diff_def)
    let ?w' = "(visualization ve n wn)
               \<lparr>V := B, out := out (visualization ve n wn) @ [Print_evaluation_finished (n + 1)]\<rparr>"
    have "?body (wn, n) = Some (Break (Inr (PyNone, ?w')))"
      unfolding policy_evaluation_body_Break using B' md d(2) pt by auto
    with st have "while_true ?body (w, 0) = Some (Inr (PyNone, ?w'))"
      unfolding while_true_Some_iff by blast
    then show "\<exists>r w'. policy_evaluation m g theta ve w = Some (Inr (r, w')) \<and> V w' = B"
      by (auto simp: policy_evaluation_def)
  }
  {
    assume none: "policy_evaluation m g theta ve w = None"
    show "\<forall>k. ?cont k"
    proof
      fix k
      show "?cont k"
      proof (induction k rule: less_induct)
        case (less k)
        then have "\<forall>j<k. ?cont j" by blast
        from policy_evaluation_steps_complete [OF this, of ve 0] obtain wk where
          st: "while_steps k ?body (w, 0) = Some (wk, k)" and
          sw: "sweeps k m g (pi_tbl w) (V w) = Inr (V wk)" and pt: "pi_tbl wk = pi_tbl w"
          by auto
        from none st have nb: "\<And>r. ?body (wk, k) \<noteq> Some (Break r)"
          unfolding policy_evaluation_def while_true_None_iff by blast
        from policy_evaluation_body_total [of m g theta ve wk k] obtain x where
          x: "?body (wk, k) = Some x" by blast
        show ?case
        proof (cases x)
          case (Break r)
          with nb x show ?thesis by blast
        next
          case (Continue s')
          with x have "?body (wk, k) = Some (Continue (fst s', snd s'))" by simp
          then obtain B' d where "sweep m g (pi_tbl wk) (states_iter m) (V wk) = Inr B'"
            "max_abs_diff (V wk) B' = Inr d" "\<not> d < theta"
            unfolding policy_evaluation_body_Continue by blast
          with sw pt have "sweep_diff k m g (pi_tbl w) (V w) = Inr d \<and> \<not> d < theta"
            by (simp add: sweep_diff_def)
          then show ?thesis by blast
        qed
      qed
    qed
  }
  {
    assume all: "\<forall>k. ?cont k"
    have "\<not> (\<exists>n s' r. while_steps n ?body (w, 0) = Some s' \<and> ?body s' = Some (Break r))"
    proof
      assume "\<exists>n s' r. while_steps n ?body (w, 0) = Some s' \<and> ?body s' = Some (Break r)"
      then obtain n wn i r where st: "while_steps n ?body (w, 0) = Some (wn, i)"
        and br: "?body (wn, i) = Some (Break r)"
        by auto
      from policy_evaluation_steps_sound [OF st] have snd: "pi_tbl wn = pi_tbl w"
        "sweeps n m g (pi_tbl w) (V w) = Inr (V wn)"
        by auto
      from all obtain d where d: "sweep_diff n m g (pi_tbl w) (V w) = Inr d" "\<not> d < theta"
        by blast
      from d(1) snd obtain B' where "sweep m g (pi_tbl wn) (states_iter m) (V wn) = Inr B'"
        "max_abs_diff (V wn) B' = Inr d"
        by (auto simp: sweep_diff_def split: sum.splits)
      with d(2) have "?body (wn, i) = Some (Continue ((visualization ve i wn)\<lparr>V := B'\<rparr>, i + 1))"
        unfolding policy_evaluation_body_Continue by auto
      with br show False by simp
    qed
    then show "policy_evaluation m g theta ve w = None"
      unfolding policy_evaluation_def while_true_None_iff .
  }
qed

text \<open>
  \<^verbatim>\<open>np.max(np.abs(V_old - V))\<close> is the specification's maximum over all states.
\<close>

lemma max_abs_diff_spec: "max_abs_diff A B = Inr d \<longleftrightarrow> spec_max_diff A B d"
proof -
  let ?f = "\<lambda>i j. \<bar>cell A i j - cell B i j\<bar>"
  let ?xs = "concat (map (\<lambda>i. map (?f i) [0..<ncols A]) [0..<nrows A])"
  have set_xs: "set ?xs = (\<Union>i\<in>{0..<nrows A}. ?f i ` {0..<ncols A})"
    by simp
  have mem: "x \<in> set ?xs \<longleftrightarrow> (\<exists>i\<in>{0..<nrows A}. \<exists>j\<in>{0..<ncols A}. x = ?f i j)" for x
    unfolding set_xs by blast
  show ?thesis
  proof (cases "?xs = []")
    case True
    have "d \<notin> set ?xs"
      unfolding True by simp
    with mem [of d] have "\<not> (\<exists>i\<in>{0..<nrows A}. \<exists>j\<in>{0..<ncols A}. d = ?f i j)"
      by blast
    then have "\<not> spec_max_diff A B d"
      by (simp add: spec_max_diff_def abs_minus_commute)
    moreover from True have "max_abs_diff A B = Inl ValueError"
      by (simp add: max_abs_diff_def np_max_def)
    ultimately show ?thesis by simp
  next
    case False
    then have ne: "set ?xs \<noteq> {}" by (simp only: set_empty) simp
    have "Max (set ?xs) = d \<longleftrightarrow> d \<in> set ?xs \<and> (\<forall>x\<in>set ?xs. x \<le> d)"
      using ne by (intro Max_eq_iff) simp_all
    also have "\<dots> \<longleftrightarrow> spec_max_diff A B d"
      unfolding spec_max_diff_def mem by (auto simp: abs_minus_commute)
    finally have "Max (set ?xs) = d \<longleftrightarrow> spec_max_diff A B d" .
    moreover from False have "max_abs_diff A B = Inr (Max (set ?xs))"
      by (simp add: max_abs_diff_def np_max_def)
    ultimately show ?thesis by auto
  qed
qed

lemma sweep_diff_spec:
  "sweep_diff k m g pt Vt = Inr d \<longleftrightarrow> spec_sweep_diff k m g pt Vt d"
  by (simp add: sweep_diff_def spec_sweep_diff_def max_abs_diff_spec split: sum.splits)

lemma spec_max_diff_1x2:
  "nrows A = Suc 0 \<Longrightarrow> ncols A = Suc (Suc 0) \<Longrightarrow>
   spec_max_diff A B d \<longleftrightarrow>
     d = max \<bar>cell B 0 0 - cell A 0 0\<bar> \<bar>cell B 0 (Suc 0) - cell A 0 (Suc 0)\<bar>"
  by (auto simp: spec_max_diff_def atLeast0_lessThan_Suc max_def)

lemma two_state_sweep:
  "nrows pt = Suc 0 \<Longrightarrow> ncols pt = Suc (Suc 0) \<Longrightarrow>
   nrows Vt = Suc 0 \<Longrightarrow> ncols Vt = Suc (Suc 0) \<Longrightarrow>
   \<exists>B. sweep two_state_mdp g pt (states_iter two_state_mdp) Vt = Inr B \<and>
     nrows B = Suc 0 \<and> ncols B = Suc (Suc 0) \<and>
     cell B 0 0 = g * cell Vt 0 0 \<and> cell B 0 (Suc 0) = 1 + g * cell Vt 0 (Suc 0)"
  by (simp add: two_state_mdp_def q_value_def get2_def set2_def)

text \<open>
  C2. \<open>policy_evaluation\<close> performs sweep after sweep over \<^verbatim>\<open>mdp.states_iter()\<close>. After
  each sweep its \<^verbatim>\<open>max_diff\<close> is the maximum over all states \<open>s\<close> of
  \<open>|V_new(s) - V_old(s)|\<close>, where \<open>V_old\<close> is the table as it was before that sweep, and
  it stops exactly at the first sweep with \<open>max_diff < \<theta>\<close>: it returns after sweep
  \<open>n + 1\<close> if and only if that sweep is the first one with \<open>max_diff < \<theta>\<close> (every earlier
  sweep completed with \<open>\<not> max_diff < \<theta>\<close>), whatever \<open>n\<close> is. Nothing caps the number of
  sweeps: the call never returns if and only if every sweep completes with
  \<open>\<not> max_diff < \<theta>\<close>.
\<close>

theorem policy_evaluation_stops_exactly:
  "((\<exists>r w'. policy_evaluation m g theta ve w = Some (Inr (r, w')) \<and> V w' = B) \<longleftrightarrow>
      (\<exists>n d. spec_sweep_diff n m g (pi_tbl w) (V w) d \<and> d < theta \<and>
         sweeps (Suc n) m g (pi_tbl w) (V w) = Inr B \<and>
         (\<forall>k<n. \<exists>d'. spec_sweep_diff k m g (pi_tbl w) (V w) d' \<and> \<not> d' < theta))) \<and>
   (policy_evaluation m g theta ve w = None \<longleftrightarrow>
      (\<forall>k. \<exists>d'. spec_sweep_diff k m g (pi_tbl w) (V w) d' \<and> \<not> d' < theta))"
  unfolding sweep_diff_spec [symmetric]
  by (rule policy_evaluation_stops_sweep_diff)

theorem policy_evaluation_stops_exactly_witness:
  "\<exists>r w'. policy_evaluation two_state_mdp (1/2) (3/4) 0 (dp_init 1 2) = Some (Inr (r, w')) \<and>
     get2 (V w') 0 0 = Inr 0 \<and> get2 (V w') 0 1 = Inr (3/2)"
proof -
  let ?m = "two_state_mdp"
  let ?pt = "zeros2 (Suc 0) (Suc (Suc 0)) :: int array2"
  let ?A0 = "zeros2 (Suc 0) (Suc (Suc 0)) :: real array2"
  obtain A1 where A1: "sweep ?m (1/2) ?pt (states_iter ?m) ?A0 = Inr A1"
    "nrows A1 = Suc 0" "ncols A1 = Suc (Suc 0)" "cell A1 0 0 = 0" "cell A1 0 (Suc 0) = 1"
    using two_state_sweep [of ?pt ?A0 "1/2"] by auto
  obtain A2 where A2: "sweep ?m (1/2) ?pt (states_iter ?m) A1 = Inr A2"
    "nrows A2 = Suc 0" "ncols A2 = Suc (Suc 0)" "cell A2 0 0 = 0" "cell A2 0 (Suc 0) = 3/2"
    using two_state_sweep [of ?pt A1 "1/2"] A1(2-5) by auto
  have s1: "sweeps (Suc 0) ?m (1/2) ?pt ?A0 = Inr A1"
    using A1(1) by (simp del: sweep.simps)
  have s2: "sweeps (Suc (Suc 0)) ?m (1/2) ?pt ?A0 = Inr A2"
    unfolding sweeps.simps(2) [of "Suc 0"] s1 using A2(1) by (simp del: sweep.simps)
  have d0: "spec_sweep_diff 0 ?m (1/2) ?pt ?A0 1"
    using A1 by (simp add: spec_sweep_diff_def spec_max_diff_1x2 del: sweep.simps)
  have d1: "spec_sweep_diff (Suc 0) ?m (1/2) ?pt ?A0 (1/2)"
    unfolding spec_sweep_diff_def s1 using A1(2-5) A2
    by (simp add: spec_max_diff_1x2 del: sweep.simps)
  have c: "\<forall>k<Suc 0. \<exists>d'. spec_sweep_diff k ?m (1/2) ?pt ?A0 d' \<and> \<not> d' < 3/4"
    using d0 by auto
  have "\<exists>n d. spec_sweep_diff n ?m (1/2) (pi_tbl (dp_init 1 2)) (V (dp_init 1 2)) d \<and> d < 3/4 \<and>
         sweeps (Suc n) ?m (1/2) (pi_tbl (dp_init 1 2)) (V (dp_init 1 2)) = Inr A2 \<and>
         (\<forall>k<n. \<exists>d'. spec_sweep_diff k ?m (1/2) (pi_tbl (dp_init 1 2)) (V (dp_init 1 2)) d' \<and>
            \<not> d' < 3/4)"
    using d1 s2 c by (intro exI [of _ "Suc 0"] exI [of _ "1/2"]) (simp add: numeral_2_eq_2)
  then obtain r w' where
    "policy_evaluation ?m (1/2) (3/4) 0 (dp_init 1 2) = Some (Inr (r, w'))" "V w' = A2"
    using policy_evaluation_stops_exactly [of ?m "1/2" "3/4" 0 "dp_init 1 2" A2] by blast
  moreover have "get2 A2 0 0 = Inr 0" "get2 A2 0 1 = Inr (3/2)"
    using A2(2-5) by (simp_all add: get2_def)
  ultimately show ?thesis by auto
qed

text \<open>
  With \<open>\<theta> = 0\<close> no \<^verbatim>\<open>max_diff\<close> is below \<open>\<theta>\<close>. On the one-state example with reward
  \<open>0\<close> every sweep leaves the zero table as it is, \<^verbatim>\<open>max_diff\<close> is \<open>0\<close> in every round,
  and the evaluation never returns.
\<close>

lemma policy_evaluation_diverges:
  assumes "pi_tbl w = zeros2 (Suc 0) (Suc 0)" "V w = zeros2 (Suc 0) (Suc 0)"
  shows "policy_evaluation (one_state_mdp 0) g 0 ve w = None"
  unfolding policy_evaluation_def
proof (rule while_true_invariant_None
    [where I = "\<lambda>(w, i). pi_tbl w = zeros2 (Suc 0) (Suc 0) \<and> V w = zeros2 (Suc 0) (Suc 0)"])
  show "case (w, 0::nat) of (w, i) \<Rightarrow>
      pi_tbl w = zeros2 (Suc 0) (Suc 0) \<and> V w = zeros2 (Suc 0) (Suc 0)"
    using assms by simp
next
  fix s :: "dp \<times> nat"
  assume "case s of (w, i) \<Rightarrow>
      pi_tbl w = zeros2 (Suc 0) (Suc 0) \<and> V w = zeros2 (Suc 0) (Suc 0)"
  then show "policy_evaluation_body (one_state_mdp 0) g 0 ve s = None \<or>
    (\<exists>s'. policy_evaluation_body (one_state_mdp 0) g 0 ve s = Some (Continue s') \<and>
      (case s' of (w, i) \<Rightarrow>
        pi_tbl w = zeros2 (Suc 0) (Suc 0) \<and> V w = zeros2 (Suc 0) (Suc 0)))"
    by (cases s) (simp add: policy_evaluation_body_def Let_def one_state_quiet_sweep zeros2_diff
        del: one_state_mdp_sel)
qed

text \<open>
  On the one-state example with reward \<open>0\<close> the call performs one sweep and returns: the
  count \<open>1\<close> is printed and the value returned to the caller is \<^verbatim>\<open>None\<close>.
\<close>

theorem policy_evaluation_returns_None:
  "policy_evaluation (one_state_mdp 0) (9/10) 1 0 (dp_init 1 1) =
     Some (Inr (PyNone, \<lparr>pi_tbl = zeros2 1 1, V = zeros2 1 1, out = [Print_evaluation_finished 1]\<rparr>))"
  by (rule policy_evaluation_quiet)

text \<open>
  C5 (as the code has it). A call of \<open>policy_evaluation\<close> that returns normally returns
  \<^verbatim>\<open>None\<close>. Its outputs are effects: the global value table is the table after the
  sweeps performed, \<open>n + 1\<close> of them, the last of which had \<open>max_diff < \<theta>\<close>; and the
  count \<open>n + 1\<close> of sweeps is the last message printed. The policy table is unchanged.
\<close>

theorem policy_evaluation_output:
  "policy_evaluation m g theta ve w = Some (Inr (r, w')) \<Longrightarrow>
     r = PyNone \<and> pi_tbl w' = pi_tbl w \<and>
     (\<exists>n d. sweeps (Suc n) m g (pi_tbl w) (V w) = Inr (V w') \<and>
        sweep_diff n m g (pi_tbl w) (V w) = Inr d \<and> d < theta \<and>
        out w' \<noteq> [] \<and> last (out w') = Print_evaluation_finished (Suc n))"
proof -
  let ?body = "policy_evaluation_body m g theta ve"
  assume "policy_evaluation m g theta ve w = Some (Inr (r, w'))"
  then obtain n wn i where st: "while_steps n ?body (w, 0) = Some (wn, i)"
    and br: "?body (wn, i) = Some (Break (Inr (r, w')))"
    unfolding policy_evaluation_def while_true_Some_iff by auto
  from policy_evaluation_steps_sound [OF st] have snd: "i = n" "pi_tbl wn = pi_tbl w"
    "sweeps n m g (pi_tbl w) (V w) = Inr (V wn)"
    by auto
  from br obtain B d where sw: "sweep m g (pi_tbl wn) (states_iter m) (V wn) = Inr B"
    and d: "max_abs_diff (V wn) B = Inr d" "d < theta" and r: "r = PyNone"
    and w': "w' = (visualization ve i wn)
               \<lparr>V := B, out := out (visualization ve i wn) @ [Print_evaluation_finished (i + 1)]\<rparr>"
    unfolding policy_evaluation_body_Break by auto
  have 1: "sweeps (Suc n) m g (pi_tbl w) (V w) = Inr (V w')"
    using snd(2,3) sw w' by simp
  have 2: "sweep_diff n m g (pi_tbl w) (V w) = Inr d"
    using snd(2,3) sw d(1) by (simp add: sweep_diff_def)
  have 3: "out w' \<noteq> [] \<and> last (out w') = Print_evaluation_finished (Suc n)"
    using w' snd(1) by simp
  have 4: "pi_tbl w' = pi_tbl w" using w' snd(2) by simp
  from r 1 2 3 4 d(2) show ?thesis by blast
qed

theorem policy_evaluation_output_witness:
  "\<exists>r w' n d. policy_evaluation (one_state_mdp 0) (9/10) 1 0 (dp_init 1 1) = Some (Inr (r, w')) \<and>
     r = PyNone \<and>
     sweeps (Suc n) (one_state_mdp 0) (9/10) (zeros2 1 1) (zeros2 1 1) = Inr (V w') \<and>
     sweep_diff n (one_state_mdp 0) (9/10) (zeros2 1 1) (zeros2 1 1) = Inr d \<and> d < 1 \<and>
     last (out w') = Print_evaluation_finished (Suc n)"
proof -
  let ?w = "\<lparr>pi_tbl = zeros2 1 1, V = zeros2 1 1, out = [Print_evaluation_finished 1]\<rparr>"
  have q: "policy_evaluation (one_state_mdp 0) (9/10) 1 0 (dp_init 1 1) = Some (Inr (PyNone, ?w))"
    by (rule policy_evaluation_quiet)
  from policy_evaluation_output [OF q] obtain n d where
    "sweeps (Suc n) (one_state_mdp 0) (9/10) (pi_tbl (dp_init 1 1)) (V (dp_init 1 1)) = Inr (V ?w)"
    "sweep_diff n (one_state_mdp 0) (9/10) (pi_tbl (dp_init 1 1)) (V (dp_init 1 1)) = Inr d"
    "d < 1" "last (out ?w) = Print_evaluation_finished (Suc n)"
    by blast
  with q show ?thesis
    unfolding dp_init_sel by blast
qed

section \<open>Policy improvement\<close>

lemma argmax_from_spec:
  "length pre = i \<Longrightarrow> bi < i \<Longrightarrow> pre ! bi = b \<Longrightarrow>
   \<forall>j<i. pre ! j \<le> b \<Longrightarrow> \<forall>j<bi. pre ! j < b \<Longrightarrow>
   argmax_from xs i bi b < length (pre @ xs) \<and>
   (\<forall>j<length (pre @ xs). (pre @ xs) ! j \<le> (pre @ xs) ! argmax_from xs i bi b) \<and>
   (\<forall>j<argmax_from xs i bi b. (pre @ xs) ! j < (pre @ xs) ! argmax_from xs i bi b)"
proof (induction xs arbitrary: pre i bi b)
  case Nil
  then show ?case by simp
next
  case (Cons x xs)
  have app: "pre @ x # xs = (pre @ [x]) @ xs" by simp
  show ?case
  proof (cases "b < x")
    case True
    have "argmax_from xs (Suc i) i x < length ((pre @ [x]) @ xs) \<and>
      (\<forall>j<length ((pre @ [x]) @ xs). ((pre @ [x]) @ xs) ! j \<le> ((pre @ [x]) @ xs) ! argmax_from xs (Suc i) i x) \<and>
      (\<forall>j<argmax_from xs (Suc i) i x. ((pre @ [x]) @ xs) ! j < ((pre @ [x]) @ xs) ! argmax_from xs (Suc i) i x)"
    proof (rule Cons.IH)
      show "length (pre @ [x]) = Suc i" using Cons.prems(1) by simp
      show "i < Suc i" by simp
      show "(pre @ [x]) ! i = x" using Cons.prems(1) nth_append_length [of pre x "[]"] by simp
      show "\<forall>j<Suc i. (pre @ [x]) ! j \<le> x"
        using Cons.prems(1,4) True by (auto simp: nth_append less_Suc_eq intro: less_imp_le order_le_less_trans)
      show "\<forall>j<i. (pre @ [x]) ! j < x"
        using Cons.prems(1,4) True by (auto simp: nth_append intro: order_le_less_trans)
    qed
    with True show ?thesis unfolding app by simp
  next
    case False
    have "argmax_from xs (Suc i) bi b < length ((pre @ [x]) @ xs) \<and>
      (\<forall>j<length ((pre @ [x]) @ xs). ((pre @ [x]) @ xs) ! j \<le> ((pre @ [x]) @ xs) ! argmax_from xs (Suc i) bi b) \<and>
      (\<forall>j<argmax_from xs (Suc i) bi b. ((pre @ [x]) @ xs) ! j < ((pre @ [x]) @ xs) ! argmax_from xs (Suc i) bi b)"
    proof (rule Cons.IH)
      show "length (pre @ [x]) = Suc i" using Cons.prems(1) by simp
      show "bi < Suc i" using Cons.prems(2) by simp
      show "(pre @ [x]) ! bi = b" using Cons.prems(1,2,3) by (simp add: nth_append)
      show "\<forall>j<Suc i. (pre @ [x]) ! j \<le> b"
        using Cons.prems(1,4) False by (auto simp: nth_append less_Suc_eq)
      show "\<forall>j<bi. (pre @ [x]) ! j < b"
        using Cons.prems(1,2,5) by (auto simp: nth_append)
    qed
    with False show ?thesis unfolding app by simp
  qed
qed

lemma np_argmax_spec:
  assumes "np_argmax xs = Inr k"
  shows "k < length xs \<and> (\<forall>j<length xs. xs ! j \<le> xs ! k) \<and> (\<forall>j<k. xs ! j < xs ! k)"
proof (cases xs)
  case Nil
  with assms show ?thesis by (simp add: np_argmax_def)
next
  case (Cons x rest)
  with assms have k: "k = argmax_from rest 1 0 x" by (simp add: np_argmax_def)
  have "argmax_from rest 1 0 x < length ([x] @ rest) \<and>
   (\<forall>j<length ([x] @ rest). ([x] @ rest) ! j \<le> ([x] @ rest) ! argmax_from rest 1 0 x) \<and>
   (\<forall>j<argmax_from rest 1 0 x. ([x] @ rest) ! j < ([x] @ rest) ! argmax_from rest 1 0 x)"
    by (rule argmax_from_spec) simp_all
  with k Cons show ?thesis by simp
qed

lemma q_values_spec:
  "q_values m Vt n1 n2 g as = Inr qs \<Longrightarrow>
     length qs = length as \<and> (\<forall>j<length as. q_value m Vt n1 n2 (as ! j) g = Inr (qs ! j))"
proof (induction as arbitrary: qs)
  case Nil
  then show ?case by simp
next
  case (Cons a as)
  from Cons.prems obtain q qs' where q: "q_value m Vt n1 n2 a g = Inr q"
    and qs': "q_values m Vt n1 n2 g as = Inr qs'" and qs: "qs = q # qs'"
    by (auto split: sum.splits)
  from Cons.IH [OF qs'] q qs show ?case
    by (auto simp: nth_Cons split: nat.splits)
qed

lemma best_action_spec:
  assumes "best_action m Vt n1 n2 g = Inr b"
  shows "\<exists>qs k. q_values m Vt n1 n2 g (actions_in_state m n1 n2) = Inr qs \<and>
     length qs = length (actions_in_state m n1 n2) \<and>
     (\<forall>j<length qs. q_value m Vt n1 n2 (actions_in_state m n1 n2 ! j) g = Inr (qs ! j)) \<and>
     k < length qs \<and> b = actions_in_state m n1 n2 ! k \<and>
     (\<forall>j<length qs. qs ! j \<le> qs ! k) \<and> (\<forall>j<k. qs ! j < qs ! k)"
proof -
  from assms obtain qs k where qs: "q_values m Vt n1 n2 g (actions_in_state m n1 n2) = Inr qs"
    and k: "np_argmax qs = Inr k" and b: "b = actions_in_state m n1 n2 ! k"
    by (auto simp: best_action_def Let_def split: sum.splits if_splits)
  from q_values_spec [OF qs] np_argmax_spec [OF k] qs b show ?thesis
    by auto
qed

lemma policy_improvement_loop_spec:
  "policy_improvement_loop m g Vt sts pt changed = Inr (pt', changed') \<Longrightarrow>
     nrows pt' = nrows pt \<and> ncols pt' = ncols pt \<and>
     (\<forall>(n1, n2)\<in>set sts. \<exists>b. best_action m Vt n1 n2 g = Inr b \<and> get2 pt' n1 n2 = Inr b) \<and>
     (\<forall>n1 n2. (n1, n2) \<notin> set sts \<longrightarrow> cell pt' n1 n2 = cell pt n1 n2)"
proof (induction sts arbitrary: pt changed)
  case Nil
  then show ?case by simp
next
  case (Cons s rest)
  obtain n1 n2 where s: "s = (n1, n2)" by (cases s)
  from Cons.prems s obtain b old where b: "best_action m Vt n1 n2 g = Inr b"
    and old: "get2 pt n1 n2 = Inr old"
    by (auto split: sum.splits)
  from old have rng: "n1 < nrows pt" "n2 < ncols pt" and oldv: "old = cell pt n1 n2"
    by (auto simp: get2_def split: if_splits)
  define pt1 where "pt1 = (if old \<noteq> b then pt\<lparr>cell := (cell pt)(n1 := (cell pt n1)(n2 := b))\<rparr> else pt)"
  define ch1 where "ch1 = (if old \<noteq> b then True else changed)"
  have rest: "policy_improvement_loop m g Vt rest pt1 ch1 = Inr (pt', changed')"
    using Cons.prems s b old rng by (auto simp: pt1_def ch1_def set2_def split: if_splits)
  have shape1: "nrows pt1 = nrows pt" "ncols pt1 = ncols pt"
    by (simp_all add: pt1_def)
  have cell1: "cell pt1 n1 n2 = b"
    using oldv by (simp add: pt1_def)
  have other1: "cell pt1 k1 k2 = cell pt k1 k2" if "(k1, k2) \<noteq> (n1, n2)" for k1 k2
    using that by (auto simp: pt1_def)
  from Cons.IH [OF rest] have IH: "nrows pt' = nrows pt1" "ncols pt' = ncols pt1"
    "\<forall>(k1, k2)\<in>set rest. \<exists>b. best_action m Vt k1 k2 g = Inr b \<and> get2 pt' k1 k2 = Inr b"
    "\<forall>k1 k2. (k1, k2) \<notin> set rest \<longrightarrow> cell pt' k1 k2 = cell pt1 k1 k2"
    by auto
  have here: "\<exists>b. best_action m Vt n1 n2 g = Inr b \<and> get2 pt' n1 n2 = Inr b"
  proof (cases "(n1, n2) \<in> set rest")
    case True
    with IH(3) show ?thesis by auto
  next
    case False
    with IH(4) have "cell pt' n1 n2 = b" using cell1 by simp
    with rng IH(1,2) shape1 have "get2 pt' n1 n2 = Inr b" by (simp add: get2_def)
    with b show ?thesis by blast
  qed
  have 3: "\<forall>(k1, k2)\<in>set (s # rest). \<exists>b. best_action m Vt k1 k2 g = Inr b \<and> get2 pt' k1 k2 = Inr b"
    using here IH(3) s by auto
  have 4: "\<forall>k1 k2. (k1, k2) \<notin> set (s # rest) \<longrightarrow> cell pt' k1 k2 = cell pt k1 k2"
    using IH(4) other1 s by auto
  from IH(1,2) shape1 3 4 show ?case by simp
qed

lemma q_value_loop_returns:
  "\<forall>(k1, k2)\<in>set sts. k1 < nrows Vt \<and> k2 < ncols Vt \<Longrightarrow>
     \<exists>q'. q_value_loop m Vt n1 n2 a g sts q = Inr q'"
proof (induction sts arbitrary: q)
  case Nil
  show ?case by simp
next
  case (Cons s sts)
  obtain k1 k2 where s: "s = (k1, k2)" by (cases s)
  obtain p r where pr: "T m n1 n2 a k1 k2 = (p, r)" by (cases "T m n1 n2 a k1 k2")
  from Cons.prems s have rng: "k1 < nrows Vt" "k2 < ncols Vt"
    and rest: "\<forall>(k1, k2)\<in>set sts. k1 < nrows Vt \<and> k2 < ncols Vt"
    by auto
  from Cons.IH [OF rest, of "q + p * (r + g * cell Vt k1 k2)"] s pr rng show ?case
    by (simp add: get2_def)
qed

lemma q_values_returns:
  "\<forall>(k1, k2)\<in>set (states_iter m). k1 < nrows Vt \<and> k2 < ncols Vt \<Longrightarrow>
     \<exists>qs. q_values m Vt n1 n2 g as = Inr qs \<and> length qs = length as"
proof (induction as)
  case Nil
  show ?case by simp
next
  case (Cons a as)
  from q_value_loop_returns [OF Cons.prems, of m n1 n2 a g 0] obtain q where
    "q_value m Vt n1 n2 a g = Inr q" by (auto simp: q_value_def)
  with Cons.IH [OF Cons.prems] show ?case by auto
qed

lemma best_action_returns:
  assumes "\<forall>(k1, k2)\<in>set (states_iter m). k1 < nrows Vt \<and> k2 < ncols Vt"
    and "actions_in_state m n1 n2 \<noteq> []"
  shows "\<exists>b. best_action m Vt n1 n2 g = Inr b"
proof -
  from q_values_returns [OF assms(1), of n1 n2 g "actions_in_state m n1 n2"] obtain qs where
    qs: "q_values m Vt n1 n2 g (actions_in_state m n1 n2) = Inr qs"
    and len: "length qs = length (actions_in_state m n1 n2)" by blast
  from len assms(2) obtain x rest where "qs = x # rest" by (cases qs) auto
  then obtain k where k: "np_argmax qs = Inr k" by (simp add: np_argmax_def)
  from np_argmax_spec [OF k] len have "k < length (actions_in_state m n1 n2)" by simp
  with qs k show ?thesis by (simp add: best_action_def)
qed

lemma policy_improvement_loop_returns:
  "\<forall>(k1, k2)\<in>set (states_iter m). k1 < nrows Vt \<and> k2 < ncols Vt \<Longrightarrow>
   \<forall>(k1, k2)\<in>set sts. k1 < nrows pt \<and> k2 < ncols pt \<and> actions_in_state m k1 k2 \<noteq> [] \<Longrightarrow>
     \<exists>r. policy_improvement_loop m g Vt sts pt changed = Inr r"
proof (induction sts arbitrary: pt changed)
  case Nil
  show ?case by simp
next
  case (Cons s sts)
  obtain n1 n2 where s: "s = (n1, n2)" by (cases s)
  from Cons.prems(2) s have rng: "n1 < nrows pt" "n2 < ncols pt"
    and acts: "actions_in_state m n1 n2 \<noteq> []"
    and rest: "\<forall>(k1, k2)\<in>set sts. k1 < nrows pt \<and> k2 < ncols pt \<and> actions_in_state m k1 k2 \<noteq> []"
    by auto
  from best_action_returns [OF Cons.prems(1) acts] obtain b where
    b: "best_action m Vt n1 n2 g = Inr b" by blast
  let ?pt' = "pt\<lparr>cell := (cell pt)(n1 := (cell pt n1)(n2 := b))\<rparr>"
  have rest': "\<forall>(k1, k2)\<in>set sts. k1 < nrows ?pt' \<and> k2 < ncols ?pt' \<and> actions_in_state m k1 k2 \<noteq> []"
    using rest by simp
  from Cons.IH [OF Cons.prems(1) rest, of changed] Cons.IH [OF Cons.prems(1) rest', of True]
  show ?case using s b rng by (auto simp: get2_def set2_def)
qed

text \<open>
  C3. When every enumerated state lies inside both tables and has at least one legal
  action, a call of \<open>policy_improvement\<close> returns, and afterwards the policy entry of
  every enumerated state is a legal action of that state, \<open>actions ! k\<close>, whose q-value
  is maximal among the q-values of the legal actions, and \<open>k\<close> is the first index that
  attains the maximum: every earlier legal action has a strictly smaller q-value. The
  entry is a function of the inputs, the same on every run.
\<close>

theorem policy_improvement_first_maximiser:
  "\<forall>(k1, k2)\<in>set (states_iter m).
      k1 < nrows (V w) \<and> k2 < ncols (V w) \<and> k1 < nrows (pi_tbl w) \<and> k2 < ncols (pi_tbl w) \<and>
      actions_in_state m k1 k2 \<noteq> [] \<Longrightarrow>
   \<exists>changed w'. policy_improvement m g w = Inr (changed, w') \<and>
     (\<forall>(n1, n2)\<in>set (states_iter m).
        \<exists>qs k. q_values m (V w) n1 n2 g (actions_in_state m n1 n2) = Inr qs \<and>
          length qs = length (actions_in_state m n1 n2) \<and>
          (\<forall>j<length qs. q_value m (V w) n1 n2 (actions_in_state m n1 n2 ! j) g = Inr (qs ! j)) \<and>
          k < length qs \<and>
          get2 (pi_tbl w') n1 n2 = Inr (actions_in_state m n1 n2 ! k) \<and>
          (\<forall>j<length qs. qs ! j \<le> qs ! k) \<and> (\<forall>j<k. qs ! j < qs ! k))"
proof -
  assume wf: "\<forall>(k1, k2)\<in>set (states_iter m).
      k1 < nrows (V w) \<and> k2 < ncols (V w) \<and> k1 < nrows (pi_tbl w) \<and> k2 < ncols (pi_tbl w) \<and>
      actions_in_state m k1 k2 \<noteq> []"
  then have 1: "\<forall>(k1, k2)\<in>set (states_iter m). k1 < nrows (V w) \<and> k2 < ncols (V w)"
    and 2: "\<forall>(k1, k2)\<in>set (states_iter m).
      k1 < nrows (pi_tbl w) \<and> k2 < ncols (pi_tbl w) \<and> actions_in_state m k1 k2 \<noteq> []"
    by auto
  from policy_improvement_loop_returns [OF 1 2, of g False] obtain pt' changed where
    loop: "policy_improvement_loop m g (V w) (states_iter m) (pi_tbl w) False = Inr (pt', changed)"
    by (cases "policy_improvement_loop m g (V w) (states_iter m) (pi_tbl w) False") auto
  then have ret: "policy_improvement m g w = Inr (changed, w\<lparr>pi_tbl := pt'\<rparr>)"
    by (simp add: policy_improvement_def)
  have "\<exists>qs k. q_values m (V w) n1 n2 g (actions_in_state m n1 n2) = Inr qs \<and>
          length qs = length (actions_in_state m n1 n2) \<and>
          (\<forall>j<length qs. q_value m (V w) n1 n2 (actions_in_state m n1 n2 ! j) g = Inr (qs ! j)) \<and>
          k < length qs \<and>
          get2 (pi_tbl (w\<lparr>pi_tbl := pt'\<rparr>)) n1 n2 = Inr (actions_in_state m n1 n2 ! k) \<and>
          (\<forall>j<length qs. qs ! j \<le> qs ! k) \<and> (\<forall>j<k. qs ! j < qs ! k)"
    if s: "(n1, n2) \<in> set (states_iter m)" for n1 n2
  proof -
    from policy_improvement_loop_spec [OF loop] s obtain b where
      b: "best_action m (V w) n1 n2 g = Inr b" and g: "get2 pt' n1 n2 = Inr b"
      by auto
    from best_action_spec [OF b] g show ?thesis by auto
  qed
  with ret show ?thesis by blast
qed

theorem policy_improvement_first_maximiser_witness:
  "\<exists>changed w'. policy_improvement (one_state_mdp 0) (9/10) ones_policy = Inr (changed, w') \<and>
     get2 (pi_tbl w') 0 0 = Inr 0"
proof -
  have wf: "\<forall>(k1, k2)\<in>set (states_iter (one_state_mdp 0)).
      k1 < nrows (V ones_policy) \<and> k2 < ncols (V ones_policy) \<and>
      k1 < nrows (pi_tbl ones_policy) \<and> k2 < ncols (pi_tbl ones_policy) \<and>
      actions_in_state (one_state_mdp 0) k1 k2 \<noteq> []"
    by (simp add: ones_policy_def)
  from policy_improvement_first_maximiser [OF wf, of "9/10"] obtain changed w' where
    w': "policy_improvement (one_state_mdp 0) (9/10) ones_policy = Inr (changed, w')"
    and all: "\<forall>(n1, n2)\<in>set (states_iter (one_state_mdp 0)).
        \<exists>qs k. q_values (one_state_mdp 0) (V ones_policy) n1 n2 (9/10)
                  (actions_in_state (one_state_mdp 0) n1 n2) = Inr qs \<and>
          length qs = length (actions_in_state (one_state_mdp 0) n1 n2) \<and>
          (\<forall>j<length qs. q_value (one_state_mdp 0) (V ones_policy) n1 n2
                  (actions_in_state (one_state_mdp 0) n1 n2 ! j) (9/10) = Inr (qs ! j)) \<and>
          k < length qs \<and>
          get2 (pi_tbl w') n1 n2 = Inr (actions_in_state (one_state_mdp 0) n1 n2 ! k) \<and>
          (\<forall>j<length qs. qs ! j \<le> qs ! k) \<and> (\<forall>j<k. qs ! j < qs ! k)"
    by blast
  have "(0, 0) \<in> set (states_iter (one_state_mdp 0))" by simp
  with all obtain qs k where
    qs: "q_values (one_state_mdp 0) (V ones_policy) 0 0 (9/10)
           (actions_in_state (one_state_mdp 0) 0 0) = Inr qs"
    and k: "k < length qs"
    and g: "get2 (pi_tbl w') 0 0 = Inr (actions_in_state (one_state_mdp 0) 0 0 ! k)"
    and first: "\<forall>j<k. qs ! j < qs ! k"
    by blast
  from qs have qs': "qs = [0, 0]"
    by (simp add: one_state_q_value ones_policy_def)
  have "k = 0"
  proof (rule ccontr)
    assume "k \<noteq> 0"
    with k qs' have k1: "k = Suc 0" by simp
    with first have "qs ! 0 < qs ! Suc 0" by blast
    with qs' show False by simp
  qed
  with g have "get2 (pi_tbl w') 0 0 = Inr 0" by simp
  with w' show ?thesis by blast
qed

section \<open>Policy iteration\<close>

lemma policy_iteration_steps_index:
  "while_steps n (policy_iteration_body m g theta) (w, i) = Some (w', i') \<Longrightarrow> i' = i + n"
proof (induction n arbitrary: w' i')
  case 0
  then show ?case by simp
next
  case (Suc n)
  from Suc.prems obtain w1 i1 where
    st: "while_steps n (policy_iteration_body m g theta) (w, i) = Some (w1, i1)" and
    b: "policy_iteration_body m g theta (w1, i1) = Some (Continue (w', i'))"
    by (auto split: option.splits flow.splits)
  from b have "i' = i1 + 1"
    by (auto simp: policy_iteration_body_def Let_def split: option.splits sum.splits if_splits)
  with Suc.IH [OF st] show ?case by simp
qed

lemma policy_iteration_body_Break:
  "policy_iteration_body m g theta (w, i) = Some (Break (Inr (r, w'))) \<longleftrightarrow>
     (\<exists>r2 w2 w3.
        policy_evaluation m g theta 0 (w\<lparr>out := out w @ [Print_iteration_step i, Visualize]\<rparr>)
          = Some (Inr (r2, w2)) \<and>
        policy_improvement m g w2 = Inr (False, w3) \<and> r = PyNone \<and>
        w' = w3\<lparr>out := out w3 @ [Print_iteration_finished (i + 1), Visualize]\<rparr>)"
  by (auto simp: policy_iteration_body_def Let_def split: option.splits sum.splits if_splits)

lemma policy_iteration_body_None:
  "policy_evaluation m g theta 0 (w\<lparr>out := out w @ [Print_iteration_step i, Visualize]\<rparr>) = None
     \<Longrightarrow> policy_iteration_body m g theta (w, i) = None"
  by (simp add: policy_iteration_body_def Let_def)

text \<open>
  C4. A call of \<open>policy_iteration\<close> does not always terminate: on the one-state example
  with reward \<open>0\<close>, with \<open>\<gamma> = 1/2\<close> and \<open>\<theta> = 0\<close>, the call never returns, because its
  first policy evaluation never does (its \<^verbatim>\<open>max_diff\<close> is \<open>0\<close> in every round, never
  below \<open>\<theta>\<close>).
\<close>

theorem policy_iteration_diverges:
  "policy_iteration (one_state_mdp 0) (1/2) 0 (dp_init 1 1) = None"
proof -
  have "policy_iteration_body (one_state_mdp 0) (1/2) 0 (dp_init 1 1, 0) = None"
    by (simp add: policy_iteration_body_def Let_def policy_evaluation_diverges)
  then show ?thesis
    unfolding policy_iteration_def by (subst while_true.simps) simp
qed

text \<open>
  C4 (as the code has it). The loop of \<open>policy_iteration\<close> has no iteration cap and
  reports no non-convergence. A call returns normally exactly when, after some number
  \<open>n\<close> of rounds that each changed the policy, the evaluation of the next round returns
  and its improvement reports no change; it then returns \<^verbatim>\<open>None\<close>, having printed the
  count \<open>n + 1\<close>. When the evaluation of a round never returns, or when every round
  changes the policy, the call never returns.
\<close>

theorem policy_iteration_no_cap:
  "(policy_iteration m g theta w = Some (Inr (r, w')) \<longleftrightarrow>
      (\<exists>n wn r2 w2 w3.
         while_steps n (policy_iteration_body m g theta) (w, 0) = Some (wn, n) \<and>
         policy_evaluation m g theta 0 (wn\<lparr>out := out wn @ [Print_iteration_step n, Visualize]\<rparr>)
           = Some (Inr (r2, w2)) \<and>
         policy_improvement m g w2 = Inr (False, w3) \<and> r = PyNone \<and>
         w' = w3\<lparr>out := out w3 @ [Print_iteration_finished (n + 1), Visualize]\<rparr>)) \<and>
   ((\<exists>n wn. while_steps n (policy_iteration_body m g theta) (w, 0) = Some (wn, n) \<and>
       policy_evaluation m g theta 0 (wn\<lparr>out := out wn @ [Print_iteration_step n, Visualize]\<rparr>)
         = None) \<longrightarrow>
      policy_iteration m g theta w = None) \<and>
   ((\<forall>n. while_steps n (policy_iteration_body m g theta) (w, 0) \<noteq> None) \<longrightarrow>
      policy_iteration m g theta w = None)"
proof (intro conjI impI)
  let ?body = "policy_iteration_body m g theta"
  show "policy_iteration m g theta w = Some (Inr (r, w')) \<longleftrightarrow>
      (\<exists>n wn r2 w2 w3.
         while_steps n ?body (w, 0) = Some (wn, n) \<and>
         policy_evaluation m g theta 0 (wn\<lparr>out := out wn @ [Print_iteration_step n, Visualize]\<rparr>)
           = Some (Inr (r2, w2)) \<and>
         policy_improvement m g w2 = Inr (False, w3) \<and> r = PyNone \<and>
         w' = w3\<lparr>out := out w3 @ [Print_iteration_finished (n + 1), Visualize]\<rparr>)"
    (is "?L \<longleftrightarrow> ?R")
  proof
    assume ?L
    then obtain n wn i where st: "while_steps n ?body (w, 0) = Some (wn, i)"
      and br: "?body (wn, i) = Some (Break (Inr (r, w')))"
      unfolding policy_iteration_def while_true_Some_iff by auto
    from policy_iteration_steps_index [OF st] have "i = n" by simp
    with st br show ?R
      unfolding policy_iteration_body_Break by blast
  next
    assume ?R
    then obtain n wn where st: "while_steps n ?body (w, 0) = Some (wn, n)"
      and br: "?body (wn, n) = Some (Break (Inr (r, w')))"
      unfolding policy_iteration_body_Break by blast
    then show ?L
      unfolding policy_iteration_def while_true_Some_iff by blast
  qed
next
  let ?body = "policy_iteration_body m g theta"
  assume "\<exists>n wn. while_steps n ?body (w, 0) = Some (wn, n) \<and>
       policy_evaluation m g theta 0 (wn\<lparr>out := out wn @ [Print_iteration_step n, Visualize]\<rparr>) = None"
  then obtain n wn where st: "while_steps n ?body (w, 0) = Some (wn, n)"
    and "policy_evaluation m g theta 0 (wn\<lparr>out := out wn @ [Print_iteration_step n, Visualize]\<rparr>) = None"
    by blast
  then have "?body (wn, n) = None" by (rule_tac policy_iteration_body_None)
  then have "while_true ?body (wn, n) = None"
    by (subst while_true.simps) simp
  with while_true_steps [OF st] show "policy_iteration m g theta w = None"
    by (simp add: policy_iteration_def)
next
  let ?body = "policy_iteration_body m g theta"
  assume all: "\<forall>n. while_steps n ?body (w, 0) \<noteq> None"
  have "\<not> (\<exists>n s' r. while_steps n ?body (w, 0) = Some s' \<and> ?body s' = Some (Break r))"
  proof
    assume "\<exists>n s' r. while_steps n ?body (w, 0) = Some s' \<and> ?body s' = Some (Break r)"
    then obtain n s' r where "while_steps n ?body (w, 0) = Some s'" "?body s' = Some (Break r)"
      by blast
    then have "while_steps (Suc n) ?body (w, 0) = None" by simp
    with all show False by blast
  qed
  then show "policy_iteration m g theta w = None"
    unfolding policy_iteration_def while_true_None_iff .
qed

theorem policy_iteration_no_cap_witness:
  "(\<exists>w'. policy_iteration (one_state_mdp 0) (9/10) 1 (dp_init 1 1) = Some (Inr (PyNone, w'))) \<and>
   policy_iteration (one_state_mdp 0) (1/2) 0 (dp_init 1 1) = None"
proof
  let ?w2 = "\<lparr>pi_tbl = zeros2 1 1, V = zeros2 1 1,
              out = [Print_iteration_step 0, Visualize, Print_evaluation_finished 1]\<rparr>"
  have st: "while_steps 0 (policy_iteration_body (one_state_mdp 0) (9/10) 1) (dp_init 1 1, 0)
      = Some (dp_init 1 1, 0)" by simp
  have ev: "policy_evaluation (one_state_mdp 0) (9/10) 1 0
      ((dp_init 1 1)\<lparr>out := out (dp_init 1 1) @ [Print_iteration_step 0, Visualize]\<rparr>)
      = Some (Inr (PyNone, ?w2))"
    using policy_evaluation_quiet_out [of "9/10" "[Print_iteration_step 0, Visualize]"]
    by (simp add: dp_init_def)
  have im: "policy_improvement (one_state_mdp 0) (9/10) ?w2 = Inr (False, ?w2)"
    by (rule policy_improvement_quiet)
  from st ev im
  have "policy_iteration (one_state_mdp 0) (9/10) 1 (dp_init 1 1) =
      Some (Inr (PyNone, ?w2\<lparr>out := out ?w2 @ [Print_iteration_finished (0 + 1), Visualize]\<rparr>))"
    using policy_iteration_no_cap [of "one_state_mdp 0" "9/10" 1 "dp_init 1 1" PyNone
        "?w2\<lparr>out := out ?w2 @ [Print_iteration_finished (0 + 1), Visualize]\<rparr>"]
    by blast
  then show "\<exists>w'. policy_iteration (one_state_mdp 0) (9/10) 1 (dp_init 1 1) = Some (Inr (PyNone, w'))"
    by blast
next
  have st: "while_steps 0 (policy_iteration_body (one_state_mdp 0) (1/2) 0) (dp_init 1 1, 0)
      = Some (dp_init 1 1, 0)" by simp
  have ev: "policy_evaluation (one_state_mdp 0) (1/2) 0 0
      ((dp_init 1 1)\<lparr>out := out (dp_init 1 1) @ [Print_iteration_step 0, Visualize]\<rparr>) = None"
    by (rule policy_evaluation_diverges) simp_all
  from st ev show "policy_iteration (one_state_mdp 0) (1/2) 0 (dp_init 1 1) = None"
    using policy_iteration_no_cap [of "one_state_mdp 0" "1/2" 0 "dp_init 1 1"]
    by blast
qed

end
